theory Spec2Isabelle
  imports Main "HOL-Library.Word"
begin

unbundle bit_operations_syntax

section \<open>kwuartboot: boot-pattern handshake and XMODEM sender\<close>

text \<open>
  A shallow embedding of \<^verbatim>\<open>kwuartboot.c\<close>. The C functions keep their names. A C
  \<^verbatim>\<open>int\<close> is an \<open>int\<close> (every counter of the program stays far below 2 ^ 31 for any
  file shorter than 256 GiB), an \<^verbatim>\<open>unsigned char\<close> is an \<open>8 word\<close>. The serial line
  and the input file are the environment: each system call takes its outcome from a script
  held in the state, and what the program does to the outside is appended to a trace.
\<close>

subsection \<open>Constants\<close>

type_synonym byte = "8 word"

definition SOH :: int where "SOH = 0x01"
definition EOT :: int where "EOT = 0x04"
definition ACK :: int where "ACK = 0x06"
definition NAK :: int where "NAK = 0x15"
definition CAN :: int where "CAN = 0x18"

definition ONE_SECOND_US :: nat where "ONE_SECOND_US = 1000000"
definition RECEIVE_TIMEOUT :: nat where "RECEIVE_TIMEOUT = 60 * 1000000"
definition MAX_RETRANS :: int where "MAX_RETRANS = 10"

text \<open>The value \<^verbatim>\<open>read_byte\<close> stores in \<^verbatim>\<open>errno\<close> when \<^verbatim>\<open>select\<close> reports no data.\<close>

definition ETIMEDOUT :: nat where "ETIMEDOUT = 110"


subsection \<open>The environment\<close>

text \<open>
  One outcome of the \<^verbatim>\<open>select\<close>/\<^verbatim>\<open>read\<close> pair of \<^verbatim>\<open>read_byte\<close>: a byte arrives, nothing
  arrives before the deadline, a system call fails with an error number, or \<^verbatim>\<open>read\<close>
  returns 0 although \<^verbatim>\<open>select\<close> announced data.
\<close>

datatype rx_ev = RByte byte | RTimeout | RError nat | REof

text \<open>One outcome of \<^verbatim>\<open>write\<close>: everything is written, at most \<open>n\<close> bytes are, or it fails.\<close>

datatype wr_ev = WAll | WCount nat | WErr nat

text \<open>One outcome of \<^verbatim>\<open>tcdrain\<close>.\<close>

datatype dr_ev = DOk | DErr nat

text \<open>Console output, one constructor for each format string of the program.\<close>

datatype msg =
    Rotator nat
  | Sending_boot_pattern
  | Star_dot
  | Timeout_msg
  | Done_msg
  | Error_reading_serial
  | Unexpected_CRC_mode
  | Cancelled_by_remote
  | Unexpected_cancelling int
  | Error_reading_file
  | Sending_file
  | Retry_mark int
  | Error_writing_serial
  | Unexpected_character int
  | Too_many_retries
  | Finishing
  | Failed_msg

text \<open>
  What the program does, in order: a \<^verbatim>\<open>write\<close> with its bytes and return value, a
  \<^verbatim>\<open>tcdrain\<close> with its return value, a \<^verbatim>\<open>tcflush\<close>, a \<^verbatim>\<open>read_byte\<close> with its timeout in
  microseconds and its return value, and text on standard output or standard error.
\<close>

datatype event =
    Write "byte list" int
  | Drain int
  | Flush
  | Read nat int
  | Out msg
  | Err msg

record world =
  rx :: "rx_ev list"
  wr :: "wr_ev list"
  dr :: "dr_ev list"
  now :: int
  ticks :: "int list"
  errno :: nat
  rot_pos :: nat
  trace :: "event list"

text \<open>A function either returns an \<^verbatim>\<open>int\<close> or dies in a failed \<^verbatim>\<open>assert\<close>.\<close>

datatype ret = Ret int | Assert_failed

definition emit :: "event \<Rightarrow> world \<Rightarrow> world" where
  "emit e w = w\<lparr>trace := trace w @ [e]\<rparr>"

text \<open>\<^verbatim>\<open>write(fd, bytes, n)\<close> on the serial line. An exhausted script writes everything.\<close>

definition sys_write :: "world \<Rightarrow> byte list \<Rightarrow> int \<times> world" where
  "sys_write w bs =
     (case wr w of
        [] \<Rightarrow> (int (length bs), emit (Write bs (int (length bs))) w)
      | WAll # s \<Rightarrow> (int (length bs), emit (Write bs (int (length bs))) (w\<lparr>wr := s\<rparr>))
      | WCount n # s \<Rightarrow>
          (int (min n (length bs)), emit (Write bs (int (min n (length bs)))) (w\<lparr>wr := s\<rparr>))
      | WErr e # s \<Rightarrow> (- 1, emit (Write bs (- 1)) (w\<lparr>wr := s, errno := e\<rparr>)))"

text \<open>\<^verbatim>\<open>tcdrain(fd)\<close>. An exhausted script succeeds.\<close>

definition tcdrain :: "world \<Rightarrow> int \<times> world" where
  "tcdrain w =
     (case dr w of
        [] \<Rightarrow> (0, emit (Drain 0) w)
      | DOk # s \<Rightarrow> (0, emit (Drain 0) (w\<lparr>dr := s\<rparr>))
      | DErr e # s \<Rightarrow> (- 1, emit (Drain (- 1)) (w\<lparr>dr := s, errno := e\<rparr>)))"

text \<open>\<^verbatim>\<open>tcflush(fd, TCIOFLUSH)\<close>; the program never looks at its return value.\<close>

definition tcflush :: "world \<Rightarrow> world" where
  "tcflush w = emit Flush w"



definition out :: "msg \<Rightarrow> world \<Rightarrow> world" where
  "out m w = emit (Out m) w"

definition err :: "msg \<Rightarrow> world \<Rightarrow> world" where
  "err m w = emit (Err m) w"

subsection \<open>The input file\<close>

text \<open>
  The unread bytes of the file and a script for \<^verbatim>\<open>read\<close>: a call may fail, or return fewer
  bytes than asked for (at least one while bytes remain). An exhausted script returns as
  many bytes as asked for, or all that remain.
\<close>

datatype fread_ev = FShort nat | FFail

record infile =
  fdata :: "byte list"
  fscript :: "fread_ev list"

definition sys_read :: "infile \<Rightarrow> nat \<Rightarrow> int \<times> byte list \<times> infile" where
  "sys_read f n =
     (case fscript f of
        [] \<Rightarrow>
          (int (min n (length (fdata f))), take n (fdata f), f\<lparr>fdata := drop n (fdata f)\<rparr>)
      | FFail # s \<Rightarrow> (- 1, [], f\<lparr>fscript := s\<rparr>)
      | FShort k # s \<Rightarrow>
          (let m = min (Suc k) n
           in (int (min m (length (fdata f))), take m (fdata f),
               f\<lparr>fdata := drop m (fdata f), fscript := s\<rparr>)))"

subsection \<open>Memory\<close>

text \<open>
  An array of \<^verbatim>\<open>unsigned char\<close> is a function from indices to bytes; a pointer into it is
  an index.
\<close>

type_synonym mem = "nat \<Rightarrow> byte"

definition store :: "mem \<Rightarrow> nat \<Rightarrow> byte list \<Rightarrow> mem" where
  "store m p bs = (\<lambda>i. if p \<le> i \<and> i < p + length bs then bs ! (i - p) else m i)"

definition memset :: "mem \<Rightarrow> nat \<Rightarrow> byte \<Rightarrow> nat \<Rightarrow> mem" where
  "memset m p v n = (\<lambda>i. if p \<le> i \<and> i < p + n then v else m i)"

definition load :: "mem \<Rightarrow> nat \<Rightarrow> nat \<Rightarrow> byte list" where
  "load m p n = map m [p ..< p + n]"

subsection \<open>\<^verbatim>\<open>read_block\<close>\<close>

text \<open>
  The \<^verbatim>\<open>while (rem > 0)\<close> loop with its locals \<^verbatim>\<open>buf\<close>, \<^verbatim>\<open>tot\<close> and \<^verbatim>\<open>rem\<close>, followed by
  the \<^verbatim>\<open>memset\<close> of the remainder.
\<close>

function read_block_loop :: "infile \<Rightarrow> mem \<Rightarrow> nat \<Rightarrow> int \<Rightarrow> int \<Rightarrow> int \<times> mem \<times> infile" where
  "read_block_loop f m buf tot rem =
     (if rem > 0 then
        (case sys_read f (nat rem) of (got, bs, f') \<Rightarrow>
           if got = 0 then (tot, memset m buf 0 (nat rem), f')
           else if got < 0 then (- 1, m, f')
           else read_block_loop f' (store m buf bs) (buf + nat got) (tot + got) (rem - got))
      else (tot, m, f))"
  by pat_completeness auto
termination
  by (relation "measure (\<lambda>(f, m, buf, tot, rem). nat rem)") auto

declare read_block_loop.simps [simp del]

definition read_block :: "infile \<Rightarrow> mem \<Rightarrow> nat \<Rightarrow> int \<Rightarrow> int \<times> mem \<times> infile" where
  "read_block f m buf sz = read_block_loop f m buf 0 sz"

subsection \<open>\<^verbatim>\<open>build_packet\<close>\<close>

text \<open>
  \<^verbatim>\<open>~(unsigned char)packetno\<close> is computed in \<^verbatim>\<open>int\<close> after integer promotion and
  truncated when it is stored.
\<close>

definition chksum :: "mem \<Rightarrow> int \<Rightarrow> byte" where
  "chksum packet buflen = fold (\<lambda>i c. c + packet i) [3 ..< nat (buflen + 3)] 0"

definition build_packet ::
  "world \<Rightarrow> infile \<Rightarrow> int \<Rightarrow> mem \<Rightarrow> int \<Rightarrow> ret \<times> mem \<times> infile \<times> world" where
  "build_packet w f packetno packet buflen =
     (if \<not> buflen > 0 then (Assert_failed, packet, f, w)
      else
        let p0 = packet(0 := word_of_int SOH);
            p1 = p0(1 := word_of_int packetno);
            p2 = p1(2 := word_of_int (NOT (uint (word_of_int packetno :: byte))))
        in case read_block f p2 3 buflen of (got, p3, f') \<Rightarrow>
             if got = - 1 then (Ret (- 1), p3, f', err Error_reading_file w)
             else if got = 0 then (Ret 1, p3, f', w)
             else (Ret 0, p3(nat (buflen + 3) := chksum p3 buflen), f', w))"

subsection \<open>\<^verbatim>\<open>read_byte\<close>, \<^verbatim>\<open>write_byte\<close>, \<^verbatim>\<open>rotator\<close>, \<^verbatim>\<open>cancel_send\<close>\<close>

text \<open>
  \<^verbatim>\<open>read_byte\<close> returns \<open>- 1\<close> with \<^verbatim>\<open>errno = ETIMEDOUT\<close> when \<^verbatim>\<open>select\<close> returns 0, \<open>- 1\<close>
  with the error number of the failing call when \<^verbatim>\<open>select\<close> or \<^verbatim>\<open>read\<close> fails, and the
  byte as an \<^verbatim>\<open>int\<close> otherwise; \<^verbatim>\<open>assert(got != 0)\<close> stops the program. When the script
  is exhausted nothing arrives any more.
\<close>

definition read_byte :: "world \<Rightarrow> nat \<Rightarrow> ret \<times> world" where
  "read_byte w timeout =
     (case rx w of
        [] \<Rightarrow> (Ret (- 1), emit (Read timeout (- 1)) (w\<lparr>errno := ETIMEDOUT\<rparr>))
      | RTimeout # s \<Rightarrow> (Ret (- 1), emit (Read timeout (- 1)) (w\<lparr>rx := s, errno := ETIMEDOUT\<rparr>))
      | RError e # s \<Rightarrow> (Ret (- 1), emit (Read timeout (- 1)) (w\<lparr>rx := s, errno := e\<rparr>))
      | REof # s \<Rightarrow> (Assert_failed, w\<lparr>rx := s\<rparr>)
      | RByte b # s \<Rightarrow> (Ret (uint b), emit (Read timeout (uint b)) (w\<lparr>rx := s\<rparr>)))"

definition write_byte :: "world \<Rightarrow> int \<Rightarrow> int \<times> world" where
  "write_byte w c = sys_write w [word_of_int c]"

definition rotator :: "world \<Rightarrow> world" where
  "rotator w = (out (Rotator (rot_pos w)) w)\<lparr>rot_pos := (rot_pos w + 1) mod 4\<rparr>"

definition cancel_send :: "world \<Rightarrow> world" where
  "cancel_send w =
     (case sys_write w [word_of_int CAN, word_of_int CAN, word_of_int CAN] of (r, w1) \<Rightarrow>
        if r = 3 then (case tcdrain w1 of (d, w2) \<Rightarrow> if d = 0 then tcflush w2 else w2)
        else w1)"

subsection \<open>\<^verbatim>\<open>send_boot_pattern\<close>\<close>

text \<open>
  How a loop body ends: the function returns, the loop is left by \<^verbatim>\<open>break\<close>, or the body
  reaches its end (or a \<^verbatim>\<open>continue\<close>).
\<close>

datatype flow = Returns ret | Breaks | Continues





subsection \<open>\<^verbatim>\<open>wait_for_nak\<close>\<close>

definition wait_for_nak :: "world \<Rightarrow> ret \<times> world" where
  "wait_for_nak w =
     (case read_byte w RECEIVE_TIMEOUT of
        (Assert_failed, w1) \<Rightarrow> (Assert_failed, w1)
      | (Ret c, w1) \<Rightarrow>
          if c = - 1 then (Ret (- 1), err Error_reading_serial w1)
          else if \<not> (c \<ge> 0 \<and> c \<le> 255) then (Assert_failed, w1)
          else if c = 0x43 then (Ret (- 1), out Unexpected_CRC_mode w1)
          else if c = NAK then (Ret 0, w1)
          else if c = CAN then
            (case read_byte w1 ONE_SECOND_US of
               (Assert_failed, w2) \<Rightarrow> (Assert_failed, w2)
             | (Ret c2, w2) \<Rightarrow>
                 if c2 = CAN then
                   (case write_byte w2 ACK of (r, w3) \<Rightarrow>
                      (Ret (- 1), out Cancelled_by_remote w3))
                 else (Ret 0, w2))
          else (Ret (- 1), cancel_send (out (Unexpected_cancelling c) w1)))"

subsection \<open>\<^verbatim>\<open>send_packet\<close>\<close>

text \<open>The \<^verbatim>\<open>for\<close> loop over the packet; \<open>False\<close> is its \<^verbatim>\<open>return -1\<close>.\<close>

function send_packet_loop :: "world \<Rightarrow> mem \<Rightarrow> int \<Rightarrow> int \<Rightarrow> bool \<times> world" where
  "send_packet_loop w packet i len =
     (if i < len then
        (case write_byte w (uint (packet (nat i))) of (r, w1) \<Rightarrow>
           if r = - 1 then (False, w1)
           else if i mod 8 = 0 then
             (case tcdrain w1 of (d, w2) \<Rightarrow>
                if d < 0 then (False, w2) else send_packet_loop w2 packet (i + 1) len)
           else send_packet_loop w1 packet (i + 1) len)
      else (True, w))"
  by pat_completeness auto
termination
  by (relation "measure (\<lambda>(w, packet, i, len). nat (len - i))") auto

declare send_packet_loop.simps [simp del]

definition send_packet :: "world \<Rightarrow> mem \<Rightarrow> int \<Rightarrow> ret \<times> world" where
  "send_packet w packet len =
     (case send_packet_loop w packet 0 len of
        (False, w1) \<Rightarrow> (Ret (- 1), w1)
      | (True, w1) \<Rightarrow> read_byte w1 RECEIVE_TIMEOUT)"

subsection \<open>\<^verbatim>\<open>xmodem_send\<close>\<close>

definition buflen :: int where "buflen = 128"

text \<open>The locals of \<^verbatim>\<open>xmodem_send\<close> that live across iterations, the serial line and the file.\<close>

record xstate =
  retry :: int
  packetno :: int
  lastpacket :: int
  packet :: mem
  tty :: world
  src :: infile

text \<open>First half of the loop body: build the next packet, or announce a retry.\<close>

definition xmodem_prepare :: "xstate \<Rightarrow> flow \<times> xstate" where
  "xmodem_prepare s =
     (if packetno s \<noteq> lastpacket s then
        (case build_packet (tty s) (src s) (packetno s) (packet s) buflen of (res, p, f, w) \<Rightarrow>
           (case res of
              Assert_failed \<Rightarrow> (Returns Assert_failed, s\<lparr>packet := p, tty := w, src := f\<rparr>)
            | Ret r \<Rightarrow>
                if r = - 1 then (Returns (Ret (- 1)), s\<lparr>packet := p, tty := w, src := f\<rparr>)
                else if r = 1 then (Breaks, s\<lparr>packet := p, tty := w, src := f\<rparr>)
                else (Continues, s\<lparr>lastpacket := packetno s, packet := p, tty := w, src := f\<rparr>)))
      else (Continues, s\<lparr>tty := out (Retry_mark (retry s)) (tty s)\<rparr>))"

text \<open>
  Second half: send the packet and act on the reply. The \<^verbatim>\<open>switch\<close> has the cases
  \<^verbatim>\<open>ACK\<close>, \<^verbatim>\<open>CAN\<close>, \<^verbatim>\<open>default\<close> (which falls through) and \<^verbatim>\<open>NAK\<close>.
\<close>

definition xmodem_exchange :: "xstate \<Rightarrow> flow \<times> xstate" where
  "xmodem_exchange s =
     (case send_packet (tty s) (packet s) (buflen + 4) of
        (Assert_failed, w1) \<Rightarrow> (Returns Assert_failed, s\<lparr>tty := w1\<rparr>)
      | (Ret c, w1) \<Rightarrow>
          if c = - 1 then
            (if errno w1 = ETIMEDOUT then (Continues, s\<lparr>tty := w1\<rparr>)
             else (Breaks, s\<lparr>tty := err Error_writing_serial w1\<rparr>))
          else if c = ACK then (Continues, s\<lparr>retry := 0, packetno := packetno s + 1, tty := w1\<rparr>)
          else if c = CAN then
            (case read_byte (out Cancelled_by_remote w1) 1 of
               (Assert_failed, w2) \<Rightarrow> (Returns Assert_failed, s\<lparr>tty := w2\<rparr>)
             | (Ret c2, w2) \<Rightarrow>
                 if c2 = CAN then
                   (case write_byte w2 ACK of (r, w3) \<Rightarrow>
                      case tcdrain w3 of (d, w4) \<Rightarrow> (Returns (Ret (- 1)), s\<lparr>tty := w4\<rparr>))
                 else (Continues, s\<lparr>tty := w2\<rparr>))
          else if c = NAK then (Continues, s\<lparr>tty := w1\<rparr>)
          else (Continues, s\<lparr>tty := out (Unexpected_character c) w1\<rparr>))"

definition xmodem_body :: "xstate \<Rightarrow> flow \<times> xstate" where
  "xmodem_body s =
     (case xmodem_prepare (s\<lparr>tty := rotator (tty s)\<rparr>) of
        (Continues, s1) \<Rightarrow> xmodem_exchange s1
      | (fl, s1) \<Rightarrow> (fl, s1))"

text \<open>What decreases from one iteration of the sending loop to the next.\<close>

definition xmodem_rank :: "xstate \<Rightarrow> nat \<times> nat" where
  "xmodem_rank s =
     (2 * length (fdata (src s)) + (if packetno s = lastpacket s then 1 else 0),
      nat (MAX_RETRANS - retry s))"

text \<open>
  A packet is built only from bytes that \<^verbatim>\<open>read_block\<close> took from the file, so every
  iteration that builds one shortens the unread part; this is why the sending loop ends.
\<close>

lemma read_block_loop_len:
  "read_block_loop f m buf tot rem = (r, m', f') \<Longrightarrow> 0 \<le> tot \<Longrightarrow>
   r = - 1 \<or> (tot \<le> r \<and> int (length (fdata f)) = int (length (fdata f')) + (r - tot))"
proof (induction f m buf tot rem arbitrary: r m' f' rule: read_block_loop.induct)
  case (1 f m buf tot rem)
  show ?case
  proof (cases "rem > 0")
    case False
    with "1.prems" show ?thesis by (simp add: read_block_loop.simps[of f m buf tot rem])
  next
    case True
    obtain got bs f1 where sr: "sys_read f (nat rem) = (got, bs, f1)"
      by (cases "sys_read f (nat rem)") auto
    have len: "got \<ge> 0 \<Longrightarrow> int (length (fdata f)) = int (length (fdata f1)) + got"
      using sr by (auto simp: sys_read_def Let_def split: list.splits fread_ev.splits)
    show ?thesis
    proof (cases "got = 0")
      case True
      with \<open>rem > 0\<close> sr "1.prems" len show ?thesis by (simp add: read_block_loop.simps[of f m buf tot rem])
    next
      case g0: False
      show ?thesis
      proof (cases "got < 0")
        case True
        with \<open>rem > 0\<close> sr g0 "1.prems" show ?thesis by (simp add: read_block_loop.simps[of f m buf tot rem])
      next
        case False
        with g0 have gp: "got > 0" by simp
        from \<open>rem > 0\<close> sr g0 False "1.prems"(1)
        have rec: "read_block_loop f1 (store m buf bs) (buf + nat got) (tot + got) (rem - got) = (r, m', f')"
          by (simp add: read_block_loop.simps[of f m buf tot rem])
        have "r = - 1 \<or> (tot + got \<le> r \<and> int (length (fdata f1)) = int (length (fdata f')) + (r - (tot + got)))"
          using "1.IH"[OF \<open>rem > 0\<close> sr[symmetric] refl g0 False rec] "1.prems" gp by simp
        with len gp show ?thesis by auto
      qed
    qed
  qed
qed

lemma build_packet_shrinks:
  assumes "build_packet w f n p bl = (Ret 0, p', f', w')"
  shows "length (fdata f') < length (fdata f)"
proof -
  from assms have bl: "bl > 0"
    by (auto simp: build_packet_def split: if_splits)
  obtain got p3 f3 where rb: "read_block f (p(0 := word_of_int SOH, 1 := word_of_int n,
      2 := word_of_int (NOT (uint (word_of_int n :: byte))))) 3 bl = (got, p3, f3)"
    by (metis prod_cases3)
  from assms bl rb have g: "got \<noteq> - 1" "got \<noteq> 0" and f3: "f3 = f'"
    by (auto simp: build_packet_def Let_def split: if_splits)
  from read_block_loop_len[OF rb[unfolded read_block_def]] g
  have "0 < got \<and> int (length (fdata f)) = int (length (fdata f3)) + got" by auto
  with f3 show ?thesis by simp
qed

lemma build_packet_ret:
  "build_packet w f n p bl = (Ret r, p', f', w') \<Longrightarrow> r = - 1 \<or> r = 0 \<or> r = 1"
  by (auto simp: build_packet_def Let_def split: if_splits prod.splits)

lemma build_packet_progress:
  "build_packet w f n p bl = (Ret r, p', f', w') \<Longrightarrow> r \<noteq> - 1 \<Longrightarrow> r \<noteq> 1 \<Longrightarrow>
   length (fdata f') < length (fdata f)"
  using build_packet_ret build_packet_shrinks by blast

lemma xmodem_exchange_fields:
  "xmodem_exchange s = (Continues, s1) \<Longrightarrow>
   src s1 = src s \<and> lastpacket s1 = lastpacket s \<and> packet s1 = packet s \<and>
   ((retry s1 = retry s \<and> packetno s1 = packetno s) \<or>
    (retry s1 = 0 \<and> packetno s1 = packetno s + 1))"
  by (auto simp: xmodem_exchange_def split: prod.splits ret.splits if_splits)

lemma xmodem_prepare_fields:
  "xmodem_prepare s = (Continues, s1) \<Longrightarrow>
   retry s1 = retry s \<and> packetno s1 = packetno s \<and> lastpacket s1 = packetno s \<and>
   (if packetno s = lastpacket s then src s1 = src s
    else length (fdata (src s1)) < length (fdata (src s)))"
  by (auto simp: xmodem_prepare_def split: prod.splits ret.splits if_splits
           dest: build_packet_progress)

lemma xmodem_body_rank:
  assumes "xmodem_body s = (Continues, s1)" and "retry s < MAX_RETRANS"
  shows "(xmodem_rank (s1\<lparr>retry := retry s1 + 1\<rparr>), xmodem_rank s) \<in> less_than <*lex*> less_than"
proof -
  from assms(1) obtain s0 where p: "xmodem_prepare (s\<lparr>tty := rotator (tty s)\<rparr>) = (Continues, s0)"
    and e: "xmodem_exchange s0 = (Continues, s1)"
    by (auto simp: xmodem_body_def split: prod.splits flow.splits)
  from xmodem_prepare_fields[OF p] xmodem_exchange_fields[OF e] assms(2)
  show ?thesis
    by (auto simp: xmodem_rank_def MAX_RETRANS_def split: if_splits)
qed

text \<open>
  The \<^verbatim>\<open>for (retry = 0; retry < MAX_RETRANS; ++retry)\<close> loop. It ends with \<open>Returns\<close>
  when the body returned from the function, and otherwise with the state in which the code
  after the loop runs.
\<close>

function xmodem_for :: "xstate \<Rightarrow> flow \<times> xstate" where
  "xmodem_for s =
     (if retry s < MAX_RETRANS then
        (case xmodem_body s of
           (Continues, s1) \<Rightarrow> xmodem_for (s1\<lparr>retry := retry s1 + 1\<rparr>)
         | (fl, s1) \<Rightarrow> (fl, s1))
      else (Breaks, s))"
  by pat_completeness auto
termination
  apply (relation "inv_image (less_than <*lex*> less_than) xmodem_rank")
   apply (intro wf_inv_image wf_lex_prod wf_less_than)
  apply (auto dest!: xmodem_body_rank[OF sym])
  done

declare xmodem_for.simps [simp del]


text \<open>
  The \<^verbatim>\<open>Finishing\<close> loop, with the local \<^verbatim>\<open>c\<close> it leaves behind. The first iteration
  always runs and assigns \<^verbatim>\<open>c\<close>, so the value \<^verbatim>\<open>c\<close> enters with is never looked at.
\<close>

function eot_loop :: "world \<Rightarrow> int \<Rightarrow> int \<Rightarrow> ret \<times> world" where
  "eot_loop w rt c =
     (if rt < MAX_RETRANS then
        (case write_byte w EOT of (r, w1) \<Rightarrow>
           case tcdrain w1 of (d, w2) \<Rightarrow>
             case read_byte w2 1 of
               (Assert_failed, w3) \<Rightarrow> (Assert_failed, w3)
             | (Ret c', w3) \<Rightarrow> if c' = ACK then (Ret c', w3) else eot_loop w3 (rt + 1) c')
      else (Ret c, w))"
  by pat_completeness auto
termination
  by (relation "measure (\<lambda>(w, rt, c). nat (MAX_RETRANS - rt))") auto

declare eot_loop.simps [simp del]

definition xmodem_finish :: "world \<Rightarrow> ret \<times> world" where
  "xmodem_finish w =
     (case eot_loop (out Finishing w) 0 0 of
        (Assert_failed, w1) \<Rightarrow> (Assert_failed, w1)
      | (Ret c, w1) \<Rightarrow>
          if c \<noteq> ACK then (Ret (- 1), out Failed_msg w1) else (Ret 0, out Done_msg w1))"

text \<open>The code after the sending loop: give up after too many retries, or finish.\<close>

definition xmodem_after :: "flow \<times> xstate \<Rightarrow> ret \<times> world \<times> infile" where
  "xmodem_after x =
     (case x of
        (Returns r, s) \<Rightarrow> (r, tty s, src s)
      | (fl, s) \<Rightarrow>
          if retry s = MAX_RETRANS then
            (Ret (- 1), cancel_send (err Too_many_retries (tty s)), src s)
          else (case xmodem_finish (tty s) of (r, w) \<Rightarrow> (r, w, src s)))"

text \<open>
  \<^verbatim>\<open>xmodem_send\<close>. The array \<^verbatim>\<open>packet\<close> is uninitialised in C; \<open>packet0\<close> is what the
  stack holds there.
\<close>

definition xmodem_start :: "mem \<Rightarrow> world \<Rightarrow> infile \<Rightarrow> xstate" where
  "xmodem_start packet0 w f =
     \<lparr>retry = 0, packetno = 1, lastpacket = 0, packet = packet0, tty = w, src = f\<rparr>"

definition xmodem_send :: "mem \<Rightarrow> world \<Rightarrow> infile \<Rightarrow> ret \<times> world \<times> infile" where
  "xmodem_send packet0 w f =
     (case wait_for_nak (out Sending_file w) of
        (Assert_failed, w1) \<Rightarrow> (Assert_failed, w1, f)
      | (Ret r, w1) \<Rightarrow>
          if r = - 1 then (Ret (- 1), w1, f)
          else xmodem_after (xmodem_for (xmodem_start packet0 w1 f)))"

subsection \<open>What is seen from outside\<close>

text \<open>The bytes that the writes of a trace put on the serial line.\<close>

fun sent :: "event list \<Rightarrow> byte list" where
  "sent [] = []"
| "sent (Write bs r # es) = take (nat r) bs @ sent es"
| "sent (e # es) = sent es"

text \<open>The timeouts, in microseconds, of the \<^verbatim>\<open>read_byte\<close> calls of a trace.\<close>

fun read_timeouts :: "event list \<Rightarrow> nat list" where
  "read_timeouts [] = []"
| "read_timeouts (Read t c # es) = t # read_timeouts es"
| "read_timeouts (e # es) = read_timeouts es"

text \<open>The messages that a trace prints on standard output.\<close>

fun printed :: "event list \<Rightarrow> msg list" where
  "printed [] = []"
| "printed (Out m # es) = m # printed es"
| "printed (e # es) = printed es"

text \<open>The events of sending the bytes \<open>i\<close> to \<open>len - 1\<close> of a packet when no call fails.\<close>

definition packet_events :: "mem \<Rightarrow> nat \<Rightarrow> nat \<Rightarrow> event list" where
  "packet_events p i len =
     concat (map (\<lambda>j. Write [p j] 1 # (if j mod 8 = 0 then [Drain 0] else [])) [i ..< len])"

text \<open>
  The wire format as the protocol describes it: a 128-byte payload cut from the data and
  padded with zeros, framed by \<^verbatim>\<open>SOH\<close>, the packet number, its complement, and the sum
  of the payload; and the receiver's view, which cuts the stream into frames and keeps
  their payloads.
\<close>

definition payload_of :: "byte list \<Rightarrow> byte list" where
  "payload_of bs = take 128 bs @ replicate (128 - length bs) 0"

definition frame :: "int \<Rightarrow> byte list \<Rightarrow> byte list" where
  "frame n pl = [word_of_int SOH, word_of_int n, NOT (word_of_int n)] @ pl @ [sum_list pl]"

fun frames :: "int \<Rightarrow> byte list \<Rightarrow> byte list" where
  "frames n bs = (if bs = [] then [] else frame n (payload_of bs) @ frames (n + 1) (drop 128 bs))"

declare frames.simps [simp del]

fun unframe :: "byte list \<Rightarrow> byte list list" where
  "unframe bs = (if length bs < 132 then [] else take 128 (drop 3 bs) # unframe (drop 132 bs))"

declare unframe.simps [simp del]

subsection \<open>Inputs for the worked examples\<close>

text \<open>A serial line on which nothing arrives and nothing fails, and a file of two bytes.\<close>

definition idle_world :: world where
  "idle_world =
     \<lparr>rx = [], wr = [], dr = [], now = 0, ticks = [], errno = 0, rot_pos = 0, trace = []\<rparr>"

definition two_byte_file :: infile where
  "two_byte_file = \<lparr>fdata = [0x41, 0x42], fscript = []\<rparr>"

text \<open>A state of the sending loop in which packet 2 is about to be sent for the fourth time.\<close>

definition double_can_state :: xstate where
  "double_can_state =
     \<lparr>retry = 3, packetno = 2, lastpacket = 2, packet = (\<lambda>_. 0),
      tty = idle_world\<lparr>rx := [RByte 0x18, RByte 0x18]\<rparr>, src = two_byte_file\<rparr>"


text \<open>The number of packets that carry a file of \<open>n\<close> bytes.\<close>

definition nblocks :: "nat \<Rightarrow> nat" where
  "nblocks n = (n + 127) div 128"

section \<open>Properties\<close>

subsection \<open>Packets\<close>

text \<open>\<^verbatim>\<open>read_block\<close> writes only at and after the pointer it is given.\<close>

lemma read_block_loop_frame:
  "read_block_loop f m buf tot rem = (r, m', f') \<Longrightarrow> i < buf \<Longrightarrow> m' i = m i"
proof (induction f m buf tot rem arbitrary: r m' f' rule: read_block_loop.induct)
  case (1 f m buf tot rem)
  show ?case
  proof (cases "rem > 0")
    case False
    with "1.prems" show ?thesis by (simp add: read_block_loop.simps[of f m buf tot rem])
  next
    case True
    obtain got bs f1 where sr: "sys_read f (nat rem) = (got, bs, f1)"
      by (cases "sys_read f (nat rem)") auto
    show ?thesis
    proof (cases "got = 0 \<or> got < 0")
      case True
      with \<open>rem > 0\<close> sr "1.prems" show ?thesis
        by (auto simp: memset_def read_block_loop.simps[of f m buf tot rem] split: if_splits)
    next
      case False
      then have g: "got \<noteq> 0" "\<not> got < 0" by auto
      from \<open>rem > 0\<close> sr g "1.prems"(1)
      have rec: "read_block_loop f1 (store m buf bs) (buf + nat got) (tot + got) (rem - got) = (r, m', f')"
        by (simp add: read_block_loop.simps[of f m buf tot rem])
      have "m' i = store m buf bs i"
        using "1.IH"[OF \<open>rem > 0\<close> sr[symmetric] refl g rec] "1.prems"(2) by simp
      with "1.prems"(2) show ?thesis by (simp add: store_def)
    qed
  qed
qed

lemma fold_add_sum_list:
  "fold (\<lambda>i c. c + g i) xs (a :: byte) = a + sum_list (map g xs)"
  by (induction xs arbitrary: a) (simp_all add: add.assoc)

lemma unat_sum_list_byte:
  "unat (sum_list ws :: byte) = sum_list (map unat ws) mod 256"
proof (induction ws)
  case Nil
  show ?case by simp
next
  case (Cons w ws)
  have "unat (w + sum_list ws) = (unat w + unat (sum_list ws)) mod 256"
    by (simp add: unat_word_ariths)
  also have "\<dots> = (unat w + sum_list (map unat ws)) mod 256"
    by (simp add: Cons.IH mod_add_right_eq)
  finally show ?case by simp
qed

lemma chksum_load:
  "chksum p buflen = sum_list (load p 3 128)"
  by (simp add: chksum_def buflen_def load_def fold_add_sum_list)

lemma complement_byte:
  "(word_of_int (NOT (uint (b :: byte))) :: byte) = NOT b"
  by (rule word_not_def[symmetric])

lemma uint_not_byte: "uint (NOT (b :: byte)) = 255 - uint b"
proof -
  have "NOT b = 255 - b"
    by (simp add: not_eq_complement)
  moreover have "uint (255 - b) = uint (255 :: byte) - uint b"
    by (rule uint_minus_simple_alt[THEN iffD1]) (simp add: word_le_def; use uint_lt2p[of b] in simp)
  ultimately show ?thesis by simp
qed

text \<open>What \<^verbatim>\<open>read_block\<close> and \<^verbatim>\<open>build_packet\<close> compute when no read of the file fails.\<close>

lemma sys_read_ok:
  assumes "FFail \<notin> set (fscript f)" and "0 < n"
  shows "\<exists>g s'. sys_read f n =
           (int g, take g (fdata f), \<lparr>fdata = drop g (fdata f), fscript = s'\<rparr>) \<and>
         g \<le> n \<and> g \<le> length (fdata f) \<and> (g = 0 \<longrightarrow> fdata f = []) \<and>
         set s' \<subseteq> set (fscript f)"
proof (cases "fscript f")
  case Nil
  then show ?thesis
    using assms by (intro exI[of _ "min n (length (fdata f))"] exI[of _ "[]"])
       (auto simp: sys_read_def min_def)
next
  case (Cons e s)
  with assms(1) obtain k where e: "e = FShort k"
    by (cases e) auto
  show ?thesis
    using assms Cons e
    by (intro exI[of _ "min (min (Suc k) n) (length (fdata f))"] exI[of _ s])
       (auto simp: sys_read_def Let_def min_def)
qed

lemma store_Nil [simp]: "store m p [] = m"
  by (auto simp: store_def fun_eq_iff)

lemma memset_0 [simp]: "memset m p v 0 = m"
  by (auto simp: memset_def fun_eq_iff)

lemma store_memset_split:
  assumes "g \<le> r" and "g \<le> length ds"
  shows "store (memset (store m buf (take g ds)) (buf + g) 0 (r - g)) (buf + g)
           (take (r - g) (drop g ds)) =
         store (memset m buf 0 r) buf (take r ds)"
proof
  fix i
  show "store (memset (store m buf (take g ds)) (buf + g) 0 (r - g)) (buf + g)
           (take (r - g) (drop g ds)) i =
         store (memset m buf 0 r) buf (take r ds) i"
    using assms by (auto simp: store_def memset_def min_def nth_append)
qed

lemma read_block_loop_content:
  assumes "FFail \<notin> set (fscript f)" and "0 \<le> rem"
  shows "\<exists>s'. read_block_loop f m buf tot rem =
           (tot + int (min (nat rem) (length (fdata f))),
            store (memset m buf 0 (nat rem)) buf (take (nat rem) (fdata f)),
            \<lparr>fdata = drop (nat rem) (fdata f), fscript = s'\<rparr>) \<and>
         set s' \<subseteq> set (fscript f)"
  using assms
proof (induction f m buf tot rem rule: read_block_loop.induct)
  case (1 f m buf tot rem)
  show ?case
  proof (cases "rem > 0")
    case False
    with "1.prems" have "rem = 0" by simp
    moreover from False have "read_block_loop f m buf tot rem = (tot, m, f)"
      by (simp add: read_block_loop.simps[of f m buf tot rem])
    ultimately show ?thesis
      by (intro exI[of _ "fscript f"]) simp
  next
    case True
    then have "0 < nat rem" by simp
    from sys_read_ok[OF "1.prems"(1) this] obtain g s1 where
      sr: "sys_read f (nat rem) = (int g, take g (fdata f), \<lparr>fdata = drop g (fdata f), fscript = s1\<rparr>)"
      and g: "g \<le> nat rem" "g \<le> length (fdata f)" "g = 0 \<longrightarrow> fdata f = []"
      and s1: "set s1 \<subseteq> set (fscript f)"
      by blast
    show ?thesis
    proof (cases "g = 0")
      case True
      with g have "fdata f = []" by simp
      with True \<open>rem > 0\<close> sr s1 show ?thesis
        by (intro exI[of _ s1]) (simp add: read_block_loop.simps[of f m buf tot rem])
    next
      case False
      define f1 where "f1 = \<lparr>fdata = drop g (fdata f), fscript = s1\<rparr>"
      have nf: "FFail \<notin> set (fscript f1)"
        using s1 "1.prems"(1) by (auto simp: f1_def)
      have r0: "0 \<le> rem - int g"
        using g(1) True by linarith
      from False have g0: "int g \<noteq> 0" "\<not> int g < 0" by simp_all
      from "1.IH"[OF True sr[symmetric] refl g0 nf[unfolded f1_def] r0]
      obtain s2 where
        rec: "read_block_loop f1 (store m buf (take g (fdata f))) (buf + g) (tot + int g) (rem - int g) =
           (tot + int g + int (min (nat (rem - int g)) (length (fdata f1))),
            store (memset (store m buf (take g (fdata f))) (buf + g) 0 (nat (rem - int g))) (buf + g)
              (take (nat (rem - int g)) (fdata f1)),
            \<lparr>fdata = drop (nat (rem - int g)) (fdata f1), fscript = s2\<rparr>)"
        and s2: "set s2 \<subseteq> set (fscript f1)"
        by (auto simp: f1_def)
      have n: "nat (rem - int g) = nat rem - g"
        by simp
      have step: "read_block_loop f m buf tot rem =
              read_block_loop f1 (store m buf (take g (fdata f))) (buf + g) (tot + int g) (rem - int g)"
        using True sr False by (simp add: f1_def read_block_loop.simps[of f m buf tot rem])
      have tot_eq: "tot + int g + int (min (nat (rem - int g)) (length (fdata f1))) =
                    tot + int (min (nat rem) (length (fdata f)))"
        using g(1,2) True by (simp add: f1_def n min_def) linarith
      have mem_eq: "store (memset (store m buf (take g (fdata f))) (buf + g) 0 (nat (rem - int g)))
              (buf + g) (take (nat (rem - int g)) (fdata f1)) =
            store (memset m buf 0 (nat rem)) buf (take (nat rem) (fdata f))"
        unfolding n f1_def using store_memset_split[OF g(1) g(2), of m buf] by simp
      have data_eq: "drop (nat (rem - int g)) (fdata f1) = drop (nat rem) (fdata f)"
        using g by (simp add: f1_def n)
      have "read_block_loop f m buf tot rem =
           (tot + int (min (nat rem) (length (fdata f))),
            store (memset m buf 0 (nat rem)) buf (take (nat rem) (fdata f)),
            \<lparr>fdata = drop (nat rem) (fdata f), fscript = s2\<rparr>)"
        unfolding step rec tot_eq mem_eq data_eq ..
      moreover have "set s2 \<subseteq> set (fscript f)"
        using s2 s1 by (auto simp: f1_def)
      ultimately show ?thesis by blast
    qed
  qed
qed

lemma load_append: "load m p (a + b) = load m p a @ load m (p + a) b"
proof -
  have "[p ..< p + a + b] = [p ..< p + a] @ [p + a ..< p + a + b]"
    by (rule upt_add_eq_append) simp
  then show ?thesis
    by (simp add: load_def add.assoc)
qed

lemma load_update_outside:
  "i < p \<or> p + n \<le> i \<Longrightarrow> load (m(i := v)) p n = load m p n"
  by (auto simp: load_def)

lemma load_nth: "i < n \<Longrightarrow> load m p n ! i = m (p + i)"
  by (simp add: load_def)

lemma load_length [simp]: "length (load m p n) = n"
  by (simp add: load_def)

lemma load_store_memset:
  "load (store (memset m b 0 n) b (take n ds)) b n = take n ds @ replicate (n - length ds) 0"
proof (rule nth_equalityI)
  show "length (load (store (memset m b 0 n) b (take n ds)) b n) =
        length (take n ds @ replicate (n - length ds) 0)"
    by simp
next
  fix i
  assume "i < length (load (store (memset m b 0 n) b (take n ds)) b n)"
  then have i: "i < n" by simp
  show "load (store (memset m b 0 n) b (take n ds)) b n ! i =
        (take n ds @ replicate (n - length ds) 0) ! i"
  proof (cases "i < length ds")
    case True
    with i show ?thesis
      by (simp add: load_nth store_def nth_append)
  next
    case False
    with i show ?thesis
      by (simp add: load_nth store_def memset_def nth_append)
  qed
qed

lemma build_packet_content:
  assumes "FFail \<notin> set (fscript f)" and "fdata f \<noteq> []"
  shows "\<exists>p' s'. build_packet w f n p buflen =
           (Ret 0, p', \<lparr>fdata = drop 128 (fdata f), fscript = s'\<rparr>, w) \<and>
         set s' \<subseteq> set (fscript f) \<and>
         load p' 0 132 = frame n (payload_of (fdata f))"
proof -
  define p2 where "p2 = p(0 := word_of_int SOH, 1 := word_of_int n,
      2 := word_of_int (NOT (uint (word_of_int n :: byte))))"
  define p3 where "p3 = store (memset p2 3 0 128) 3 (take 128 (fdata f))"
  define p' where "p' = p3(131 := chksum p3 buflen)"
  from read_block_loop_content[OF assms(1), of 128 p2 3 0] obtain s' where
    rb: "read_block f p2 3 buflen =
          (int (min 128 (length (fdata f))), p3, \<lparr>fdata = drop 128 (fdata f), fscript = s'\<rparr>)"
    and s': "set s' \<subseteq> set (fscript f)"
    by (auto simp: read_block_def buflen_def p3_def)
  from assms(2) have pos: "0 < min 128 (length (fdata f))"
    by simp
  have bp: "build_packet w f n p buflen =
              (Ret 0, p', \<lparr>fdata = drop 128 (fdata f), fscript = s'\<rparr>, w)"
    using rb pos unfolding build_packet_def Let_def p2_def[symmetric]
    by (simp add: buflen_def p'_def)
  have pl: "load p3 3 128 = payload_of (fdata f)"
    unfolding p3_def by (simp only: load_store_memset payload_of_def)
  have hd3: "p3 i = p2 i" if "i < 3" for i
    using that by (simp add: p3_def store_def memset_def)
  have "load p' 0 132 = load p' 0 3 @ load p' 3 128 @ load p' 131 1"
    using load_append[of p' 0 3 129] load_append[of p' 3 128 1] by simp
  moreover have "load p' 0 3 = [word_of_int SOH, word_of_int n, NOT (word_of_int n)]"
  proof -
    have "[0 ..< 3] = [0, 1, 2 :: nat]"
      by (simp add: upt_rec)
    then have "load p' 0 3 = [p' 0, p' 1, p' 2]"
      by (simp add: load_def)
    also have "\<dots> = [p2 0, p2 1, p2 2]"
      using hd3[of 0] hd3[of 1] hd3[of 2] by (simp add: p'_def)
    finally show ?thesis
      by (simp add: p2_def word_not_def)
  qed
  moreover have "load p' 3 128 = payload_of (fdata f)"
    by (simp add: p'_def load_update_outside pl)
  moreover have "load p' 131 1 = [sum_list (payload_of (fdata f))]"
  proof -
    have "load p' 131 1 = [p' 131]"
      by (simp add: load_def)
    also have "p' 131 = chksum p3 buflen"
      by (simp add: p'_def)
    also have "\<dots> = sum_list (payload_of (fdata f))"
      by (simp only: chksum_load pl)
    finally show ?thesis .
  qed
  ultimately have "load p' 0 132 = frame n (payload_of (fdata f))"
    by (simp add: frame_def)
  with bp s' show ?thesis by blast
qed

lemma build_packet_eof:
  assumes "FFail \<notin> set (fscript f)" and "fdata f = []"
  shows "\<exists>p' s'. build_packet w f n p buflen = (Ret 1, p', \<lparr>fdata = [], fscript = s'\<rparr>, w)"
proof -
  define p2 where "p2 = p(0 := word_of_int SOH, 1 := word_of_int n,
      2 := word_of_int (NOT (uint (word_of_int n :: byte))))"
  from read_block_loop_content[OF assms(1), of 128 p2 3 0] assms(2) obtain s' where
    "read_block f p2 3 buflen = (0, memset p2 3 0 128, \<lparr>fdata = [], fscript = s'\<rparr>)"
    by (auto simp: read_block_def buflen_def)
  then have "build_packet w f n p buflen =
      (Ret 1, memset p2 3 0 128, \<lparr>fdata = [], fscript = s'\<rparr>, w)"
    unfolding build_packet_def Let_def p2_def[symmetric]
    by (simp add: buflen_def)
  then show ?thesis by blast
qed

text \<open>
  C3. Every packet that \<^verbatim>\<open>build_packet\<close> completes (return value 0), for any value \<open>n\<close> of
  the \<^verbatim>\<open>int\<close> \<^verbatim>\<open>packetno\<close>, starts with SOH, carries the low eight bits of \<open>n\<close> at offset 1
  and 255 minus that byte at offset 2, which is the bitwise complement of the byte at
  offset 1, and has at offset 131, after the 128 payload bytes, the sum of the payload bytes
  modulo 256. For \<open>n\<close> from 0 to 255 the two bytes are \<open>n\<close> and \<open>255 - n\<close>.
\<close>

theorem build_packet_well_formed:
  assumes "build_packet w f n p buflen = (Ret 0, p', f', w')"
  shows "uint (p' 0) = SOH \<and> uint (p' 1) = n mod 256 \<and> uint (p' 2) = 255 - n mod 256 \<and>
         p' 2 = NOT (p' 1) \<and>
         unat (p' 131) = sum_list (map unat (load p' 3 128)) mod 256"
proof -
  define p2 where "p2 = p(0 := word_of_int SOH, 1 := word_of_int n,
      2 := word_of_int (NOT (uint (word_of_int n :: byte))))"
  obtain got p3 f3 where rb: "read_block f p2 3 buflen = (got, p3, f3)"
    by (metis prod_cases3)
  from assms(1) rb have p': "p' = p3(131 := chksum p3 buflen)"
    by (auto simp: build_packet_def Let_def p2_def buflen_def split: if_splits)
  have fr: "p3 i = p2 i" if "i < 3" for i
    using read_block_loop_frame[OF rb[unfolded read_block_def] that] .
  have b0: "p' 0 = word_of_int SOH" and b1: "p' 1 = word_of_int n"
    and b2: "p' 2 = NOT (word_of_int n)"
    using fr[of 0] fr[of 1] fr[of 2] by (simp_all add: p' p2_def complement_byte)
  have u0: "uint (p' 0) = SOH"
    unfolding b0 by (simp add: SOH_def)
  have un: "uint (word_of_int n :: byte) = n mod 256"
    by (simp add: uint_word_of_int take_bit_eq_mod)
  have u1: "uint (p' 1) = n mod 256"
    unfolding b1 by (rule un)
  have "uint (NOT (word_of_int n :: byte)) = 255 - uint (word_of_int n :: byte)"
    by (rule uint_not_byte)
  then have u2: "uint (p' 2) = 255 - n mod 256"
    unfolding b2 un .
  have "load p' 3 128 = load p3 3 128"
    by (simp add: load_def p')
  then have "unat (p' 131) = sum_list (map unat (load p' 3 128)) mod 256"
    by (simp add: p' chksum_load unat_sum_list_byte)
  with u0 u1 u2 b1 b2 show ?thesis by simp
qed

theorem build_packet_well_formed_witness:
  "fst (build_packet idle_world two_byte_file 300 (\<lambda>_. 0) buflen) = Ret 0 \<and>
   uint (fst (snd (build_packet idle_world two_byte_file 300 (\<lambda>_. 0) buflen)) 1) = 44 \<and>
   uint (fst (snd (build_packet idle_world two_byte_file 300 (\<lambda>_. 0) buflen)) 2) = 211 \<and>
   unat (fst (snd (build_packet idle_world two_byte_file 300 (\<lambda>_. 0) buflen)) 131) =
     sum_list (map unat
       (load (fst (snd (build_packet idle_world two_byte_file 300 (\<lambda>_. 0) buflen))) 3 128))
     mod 256"
proof -
  have r: "fst (build_packet idle_world two_byte_file 300 (\<lambda>_. 0) buflen) = Ret 0"
    by (simp add: build_packet_def buflen_def read_block_def read_block_loop.simps sys_read_def
          two_byte_file_def Let_def)
  then obtain p' f' w' where
    e: "build_packet idle_world two_byte_file 300 (\<lambda>_. 0) buflen = (Ret 0, p', f', w')"
    by (metis prod.collapse)
  note wf = build_packet_well_formed[OF e]
  have "uint (p' 1) = 300 mod 256"
    by (rule wf[THEN conjunct2, THEN conjunct1])
  moreover have "uint (p' 2) = 255 - 300 mod 256"
    by (rule wf[THEN conjunct2, THEN conjunct2, THEN conjunct1])
  moreover have "unat (p' 131) = sum_list (map unat (load p' 3 128)) mod 256"
    by (rule wf[THEN conjunct2, THEN conjunct2, THEN conjunct2, THEN conjunct2])
  ultimately show ?thesis
    by (simp add: e)
qed

subsection \<open>The serial line\<close>

text \<open>Sending a packet on a line whose writes and drains never fail.\<close>

lemma sent_append [simp]: "sent (xs @ ys) = sent xs @ sent ys"
  by (induction xs rule: sent.induct) simp_all

lemma read_timeouts_append [simp]: "read_timeouts (xs @ ys) = read_timeouts xs @ read_timeouts ys"
  by (induction xs rule: read_timeouts.induct) simp_all

lemma packet_events_step:
  "i < len \<Longrightarrow> packet_events p i len =
     Write [p i] 1 # (if i mod 8 = 0 then [Drain 0] else []) @ packet_events p (Suc i) len"
  by (simp add: packet_events_def upt_conv_Cons)

lemma packet_events_done [simp]: "len \<le> i \<Longrightarrow> packet_events p i len = []"
  by (simp add: packet_events_def)

lemma sent_packet_events: "sent (packet_events p i len) = map p [i ..< len]"
proof (induction "len - i" arbitrary: i)
  case 0
  then show ?case by simp
next
  case (Suc k)
  then have "i < len" by simp
  moreover have "sent (packet_events p (Suc i) len) = map p [Suc i ..< len]"
    using Suc by simp
  ultimately show ?case
    by (simp add: packet_events_step upt_conv_Cons)
qed

lemma read_timeouts_packet_events [simp]: "read_timeouts (packet_events p i len) = []"
proof (induction "len - i" arbitrary: i)
  case 0
  then show ?case by simp
next
  case (Suc k)
  then have "i < len" by simp
  moreover have "read_timeouts (packet_events p (Suc i) len) = []"
    using Suc by simp
  ultimately show ?case
    by (simp add: packet_events_step)
qed

lemma send_packet_loop_quiet:
  "wr w = [] \<Longrightarrow> dr w = [] \<Longrightarrow> 0 \<le> i \<Longrightarrow>
   send_packet_loop w p i len =
     (True, w\<lparr>trace := trace w @ packet_events p (nat i) (nat len)\<rparr>)"
proof (induction w p i len rule: send_packet_loop.induct)
  case (1 w p i len)
  show ?case
  proof (cases "i < len")
    case False
    then show ?thesis
      by (simp add: send_packet_loop.simps[of w p i len])
  next
    case True
    with "1.prems" have lt: "nat i < nat len" and suc: "nat (i + 1) = Suc (nat i)"
      by simp_all
    have md: "(nat i mod 8 = 0) = (i mod 8 = 0)"
      using "1.prems"(3) by (cases i) (simp_all, presburger)
    show ?thesis
    proof (cases "i mod 8 = 0")
      case m: True
      define w2 where "w2 = emit (Drain 0) (emit (Write [p (nat i)] 1) w)"
      have q: "wr w2 = []" "dr w2 = []"
        using "1.prems" by (simp_all add: w2_def emit_def)
      have wb: "write_byte w (uint (p (nat i))) = (1, emit (Write [p (nat i)] 1) w)"
        using "1.prems" by (simp add: write_byte_def sys_write_def)
      have td: "tcdrain (emit (Write [p (nat i)] 1) w) = (0, w2)"
        using "1.prems" by (simp add: tcdrain_def emit_def w2_def)
      have "send_packet_loop w p i len = send_packet_loop w2 p (i + 1) len"
        using True m wb td by (simp add: send_packet_loop.simps[of w p i len])
      also have "\<dots> = (True, w2\<lparr>trace := trace w2 @ packet_events p (nat (i + 1)) (nat len)\<rparr>)"
        using "1.IH"(1)[OF True wb[symmetric] _ m td[symmetric]] q "1.prems"(3) by simp
      finally show ?thesis
        using lt m md by (simp add: packet_events_step suc w2_def emit_def)
    next
      case m: False
      define w1 where "w1 = emit (Write [p (nat i)] 1) w"
      have q: "wr w1 = []" "dr w1 = []"
        using "1.prems" by (simp_all add: w1_def emit_def)
      have wb: "write_byte w (uint (p (nat i))) = (1, w1)"
        using "1.prems" by (simp add: write_byte_def sys_write_def w1_def)
      have "send_packet_loop w p i len = send_packet_loop w1 p (i + 1) len"
        using True m wb by (simp add: send_packet_loop.simps[of w p i len])
      also have "\<dots> = (True, w1\<lparr>trace := trace w1 @ packet_events p (nat (i + 1)) (nat len)\<rparr>)"
        using "1.IH"(2)[OF True wb[symmetric] _ m] q "1.prems"(3) by simp
      finally show ?thesis
        using lt m md by (simp add: packet_events_step suc w1_def emit_def)
    qed
  qed
qed

subsection \<open>The sending loop\<close>

lemma send_packet_quiet:
  assumes "wr w = []" and "dr w = []"
  shows "send_packet w p (buflen + 4) =
           read_byte (w\<lparr>trace := trace w @ packet_events p 0 132\<rparr>) RECEIVE_TIMEOUT"
  using send_packet_loop_quiet[OF assms, of 0 p 132]
  by (simp add: send_packet_def buflen_def)

lemma rotator_fields [simp]:
  "rx (rotator w) = rx w" "wr (rotator w) = wr w" "dr (rotator w) = dr w"
  "errno (rotator w) = errno w" "now (rotator w) = now w" "ticks (rotator w) = ticks w"
  "trace (rotator w) = trace w @ [Out (Rotator (rot_pos w))]"
  by (simp_all add: rotator_def out_def emit_def)

lemma out_fields [simp]:
  "rx (out m w) = rx w" "wr (out m w) = wr w" "dr (out m w) = dr w"
  "errno (out m w) = errno w" "now (out m w) = now w" "ticks (out m w) = ticks w"
  "trace (out m w) = trace w @ [Out m]"
  by (simp_all add: out_def emit_def)

lemma err_fields [simp]:
  "rx (err m w) = rx w" "wr (err m w) = wr w" "dr (err m w) = dr w"
  "errno (err m w) = errno w" "now (err m w) = now w" "ticks (err m w) = ticks w"
  "trace (err m w) = trace w @ [Err m]"
  by (simp_all add: err_def emit_def)

text \<open>The second half of an iteration, by what the acknowledgment read brings.\<close>

lemma xmodem_exchange_timeout:
  assumes "wr (tty s) = []" and "dr (tty s) = []"
    and "rx (tty s) = [] \<or> hd (rx (tty s)) = RTimeout"
  shows "\<exists>s1. xmodem_exchange s = (Continues, s1) \<and>
           retry s1 = retry s \<and> packetno s1 = packetno s \<and> lastpacket s1 = lastpacket s \<and>
           packet s1 = packet s \<and> src s1 = src s \<and>
           wr (tty s1) = [] \<and> dr (tty s1) = [] \<and> rx (tty s1) = tl (rx (tty s)) \<and>
           trace (tty s1) =
             trace (tty s) @ packet_events (packet s) 0 132 @ [Read RECEIVE_TIMEOUT (- 1)]"
proof (cases "rx (tty s)")
  case Nil
  then show ?thesis
    using assms(1,2)
    by (simp add: xmodem_exchange_def send_packet_quiet read_byte_def emit_def)
next
  case (Cons e rest)
  with assms(3) have "e = RTimeout" by simp
  with Cons show ?thesis
    using assms(1,2)
    by (simp add: xmodem_exchange_def send_packet_quiet read_byte_def emit_def)
qed

lemma xmodem_exchange_ack:
  assumes "wr (tty s) = []" and "dr (tty s) = []" and "rx (tty s) = RByte 0x06 # rest"
  shows "\<exists>s1. xmodem_exchange s = (Continues, s1) \<and>
           retry s1 = 0 \<and> packetno s1 = packetno s + 1 \<and> lastpacket s1 = lastpacket s \<and>
           packet s1 = packet s \<and> src s1 = src s \<and>
           wr (tty s1) = [] \<and> dr (tty s1) = [] \<and> rx (tty s1) = rest \<and>
           trace (tty s1) =
             trace (tty s) @ packet_events (packet s) 0 132 @ [Read RECEIVE_TIMEOUT ACK]"
  using assms
  by (simp add: xmodem_exchange_def send_packet_quiet read_byte_def emit_def ACK_def)

lemma xmodem_exchange_error:
  assumes "wr (tty s) = []" and "dr (tty s) = []" and "rx (tty s) = RError e # rest"
    and "e \<noteq> ETIMEDOUT"
  shows "\<exists>s1. xmodem_exchange s = (Breaks, s1) \<and>
           retry s1 = retry s \<and> packetno s1 = packetno s \<and> lastpacket s1 = lastpacket s \<and>
           packet s1 = packet s \<and> src s1 = src s \<and>
           wr (tty s1) = [] \<and> dr (tty s1) = [] \<and> rx (tty s1) = rest \<and>
           trace (tty s1) =
             trace (tty s) @ packet_events (packet s) 0 132 @
             [Read RECEIVE_TIMEOUT (- 1), Err Error_writing_serial]"
  using assms
  by (simp add: xmodem_exchange_def send_packet_quiet read_byte_def emit_def)

text \<open>The first half of an iteration.\<close>

lemma xmodem_prepare_resend:
  "packetno s = lastpacket s \<Longrightarrow>
   xmodem_prepare s = (Continues, s\<lparr>tty := out (Retry_mark (retry s)) (tty s)\<rparr>)"
  by (simp add: xmodem_prepare_def)

lemma xmodem_prepare_build:
  assumes "packetno s \<noteq> lastpacket s" and "FFail \<notin> set (fscript (src s))"
    and "fdata (src s) \<noteq> []"
  shows "\<exists>s1. xmodem_prepare s = (Continues, s1) \<and>
           retry s1 = retry s \<and> packetno s1 = packetno s \<and> lastpacket s1 = packetno s \<and>
           tty s1 = tty s \<and> fdata (src s1) = drop 128 (fdata (src s)) \<and>
           FFail \<notin> set (fscript (src s1)) \<and>
           load (packet s1) 0 132 = frame (packetno s) (payload_of (fdata (src s)))"
proof -
  from build_packet_content[OF assms(2,3), of "tty s" "packetno s" "packet s"]
  obtain p' s' where
    bp: "build_packet (tty s) (src s) (packetno s) (packet s) buflen =
           (Ret 0, p', \<lparr>fdata = drop 128 (fdata (src s)), fscript = s'\<rparr>, tty s)"
    and s': "set s' \<subseteq> set (fscript (src s))"
    and ld: "load p' 0 132 = frame (packetno s) (payload_of (fdata (src s)))"
    by blast
  from assms(1) bp have "xmodem_prepare s =
      (Continues, s\<lparr>lastpacket := packetno s, packet := p', tty := tty s,
         src := \<lparr>fdata = drop 128 (fdata (src s)), fscript = s'\<rparr>\<rparr>)"
    by (simp add: xmodem_prepare_def)
  with s' ld assms(2) show ?thesis
    by auto
qed

lemma xmodem_prepare_eof:
  assumes "packetno s \<noteq> lastpacket s" and "FFail \<notin> set (fscript (src s))"
    and "fdata (src s) = []"
  shows "\<exists>s1. xmodem_prepare s = (Breaks, s1) \<and> retry s1 = retry s \<and> tty s1 = tty s \<and>
           fdata (src s1) = []"
proof -
  from build_packet_eof[OF assms(2,3), of "tty s" "packetno s" "packet s"]
  obtain p' s' where
    bp: "build_packet (tty s) (src s) (packetno s) (packet s) buflen =
           (Ret 1, p', \<lparr>fdata = [], fscript = s'\<rparr>, tty s)"
    by blast
  with assms(1) show ?thesis
    by (simp add: xmodem_prepare_def)
qed

lemma sent_packet_events_load: "sent (packet_events p 0 132) = load p 0 132"
  by (simp only: sent_packet_events load_def add_0)

lemma xmodem_for_done:
  "\<not> retry s < MAX_RETRANS \<Longrightarrow> xmodem_for s = (Breaks, s)"
  by (simp add: xmodem_for.simps[of s])

lemma xmodem_for_continue:
  "retry s < MAX_RETRANS \<Longrightarrow> xmodem_body s = (Continues, s1) \<Longrightarrow>
   xmodem_for s = xmodem_for (s1\<lparr>retry := retry s1 + 1\<rparr>)"
  by (simp add: xmodem_for.simps[of s])

lemma xmodem_for_leave:
  "retry s < MAX_RETRANS \<Longrightarrow> xmodem_body s = (fl, s1) \<Longrightarrow> fl \<noteq> Continues \<Longrightarrow>
   xmodem_for s = (fl, s1)"
  by (cases fl) (simp_all add: xmodem_for.simps[of s])

lemma xmodem_body_resend:
  "packetno s = lastpacket s \<Longrightarrow>
   xmodem_body s =
     xmodem_exchange (s\<lparr>tty := out (Retry_mark (retry s)) (rotator (tty s))\<rparr>)"
  by (simp add: xmodem_body_def xmodem_prepare_def)

text \<open>An iteration that resends the packet and hears nothing.\<close>

lemma xmodem_body_resend_timeout:
  assumes "packetno s = lastpacket s" and "wr (tty s) = []" and "dr (tty s) = []"
    and "list_all (\<lambda>e. e = RTimeout) (rx (tty s))"
  shows "\<exists>s1. xmodem_body s = (Continues, s1) \<and>
           retry s1 = retry s \<and> packetno s1 = packetno s \<and> lastpacket s1 = lastpacket s \<and>
           packet s1 = packet s \<and> src s1 = src s \<and>
           wr (tty s1) = [] \<and> dr (tty s1) = [] \<and>
           list_all (\<lambda>e. e = RTimeout) (rx (tty s1)) \<and>
           sent (trace (tty s1)) = sent (trace (tty s)) @ load (packet s) 0 132"
proof -
  define sa where "sa = s\<lparr>tty := out (Retry_mark (retry s)) (rotator (tty s))\<rparr>"
  have rxa: "rx (tty sa) = [] \<or> hd (rx (tty sa)) = RTimeout"
    using assms(4) by (cases "rx (tty s)") (simp_all add: sa_def)
  from xmodem_exchange_timeout[of sa, OF _ _ rxa] assms(2,3)
  obtain s1 where e: "xmodem_exchange sa = (Continues, s1)"
    and f: "retry s1 = retry sa" "packetno s1 = packetno sa" "lastpacket s1 = lastpacket sa"
      "packet s1 = packet sa" "src s1 = src sa" "wr (tty s1) = []" "dr (tty s1) = []"
      "rx (tty s1) = tl (rx (tty sa))"
    and t: "trace (tty s1) =
             trace (tty sa) @ packet_events (packet sa) 0 132 @ [Read RECEIVE_TIMEOUT (- 1)]"
    by (auto simp: sa_def)
  have "list_all (\<lambda>e. e = RTimeout) (rx (tty s1))"
    using assms(4) f(8) by (cases "rx (tty s)") (simp_all add: sa_def)
  moreover have "sent (trace (tty s1)) = sent (trace (tty s)) @ load (packet s) 0 132"
    by (simp add: t sa_def sent_packet_events_load)
  moreover have "xmodem_body s = (Continues, s1)"
    using xmodem_body_resend[OF assms(1)] e by (simp add: sa_def)
  ultimately show ?thesis
    using f by (auto simp: sa_def)
qed

text \<open>Nothing but timeouts: the packet is resent until \<^verbatim>\<open>retry\<close> reaches the bound.\<close>

lemma xmodem_for_resend_timeouts:
  assumes "packetno s = lastpacket s" and "wr (tty s) = []" and "dr (tty s) = []"
    and "list_all (\<lambda>e. e = RTimeout) (rx (tty s))" and "retry s \<le> MAX_RETRANS"
  shows "\<exists>s'. xmodem_for s = (Breaks, s') \<and> retry s' = MAX_RETRANS \<and>
           wr (tty s') = [] \<and> dr (tty s') = [] \<and> src s' = src s \<and>
           sent (trace (tty s')) =
             sent (trace (tty s)) @
             concat (replicate (nat (MAX_RETRANS - retry s)) (load (packet s) 0 132))"
  using assms
proof (induction "nat (MAX_RETRANS - retry s)" arbitrary: s)
  case 0
  then have "retry s = MAX_RETRANS" by simp
  then show ?case
    using 0 by (simp add: xmodem_for_done)
next
  case (Suc k)
  then have lt: "retry s < MAX_RETRANS" by simp
  from xmodem_body_resend_timeout[OF Suc.prems(1-4)]
  obtain s1 where b: "xmodem_body s = (Continues, s1)"
    and f: "retry s1 = retry s" "packetno s1 = packetno s" "lastpacket s1 = lastpacket s"
      "packet s1 = packet s" "src s1 = src s" "wr (tty s1) = []" "dr (tty s1) = []"
      "list_all (\<lambda>e. e = RTimeout) (rx (tty s1))"
    and t: "sent (trace (tty s1)) = sent (trace (tty s)) @ load (packet s) 0 132"
    by blast
  define s2 where "s2 = s1\<lparr>retry := retry s1 + 1\<rparr>"
  have k: "k = nat (MAX_RETRANS - retry s2)"
    using Suc.hyps(2) f(1) by (simp add: s2_def)
  have "\<exists>s'. xmodem_for s2 = (Breaks, s') \<and> retry s' = MAX_RETRANS \<and>
           wr (tty s') = [] \<and> dr (tty s') = [] \<and> src s' = src s2 \<and>
           sent (trace (tty s')) =
             sent (trace (tty s2)) @
             concat (replicate (nat (MAX_RETRANS - retry s2)) (load (packet s2) 0 132))"
    using Suc.hyps(1)[OF k] f Suc.prems(1) lt by (simp add: s2_def)
  then obtain s' where r: "xmodem_for s2 = (Breaks, s')" "retry s' = MAX_RETRANS"
      "wr (tty s') = []" "dr (tty s') = []" "src s' = src s2"
      "sent (trace (tty s')) =
             sent (trace (tty s2)) @
             concat (replicate (nat (MAX_RETRANS - retry s2)) (load (packet s2) 0 132))"
    by blast
  have n: "nat (MAX_RETRANS - retry s) = Suc (nat (MAX_RETRANS - retry s2))"
    using Suc.hyps(2) k by simp
  have "xmodem_for s = (Breaks, s')"
    using xmodem_for_continue[OF lt b] r(1) by (simp add: s2_def)
  moreover have "sent (trace (tty s')) =
             sent (trace (tty s)) @
             concat (replicate (nat (MAX_RETRANS - retry s)) (load (packet s) 0 132))"
    unfolding n using r(6) t f(4) by (simp add: s2_def)
  ultimately show ?case
    using r f by (simp add: s2_def)
qed

text \<open>An iteration that builds the next packet from a file that still has bytes.\<close>

lemma xmodem_body_build:
  assumes "packetno s \<noteq> lastpacket s" and "FFail \<notin> set (fscript (src s))"
    and "fdata (src s) \<noteq> []"
  shows "\<exists>sb. xmodem_body s = xmodem_exchange sb \<and>
           retry sb = retry s \<and> packetno sb = packetno s \<and> lastpacket sb = packetno s \<and>
           tty sb = rotator (tty s) \<and> fdata (src sb) = drop 128 (fdata (src s)) \<and>
           FFail \<notin> set (fscript (src sb)) \<and>
           load (packet sb) 0 132 = frame (packetno s) (payload_of (fdata (src s)))"
proof -
  from xmodem_prepare_build[of "s\<lparr>tty := rotator (tty s)\<rparr>"] assms
  obtain sb where "xmodem_prepare (s\<lparr>tty := rotator (tty s)\<rparr>) = (Continues, sb)"
    and "retry sb = retry s" "packetno sb = packetno s" "lastpacket sb = packetno s"
      "tty sb = rotator (tty s)" "fdata (src sb) = drop 128 (fdata (src s))"
      "FFail \<notin> set (fscript (src sb))"
      "load (packet sb) 0 132 = frame (packetno s) (payload_of (fdata (src s)))"
    by auto
  then show ?thesis
    by (intro exI[of _ sb]) (simp add: xmodem_body_def)
qed

text \<open>A fresh packet that is never acknowledged.\<close>

lemma xmodem_for_build_timeouts:
  assumes "packetno s \<noteq> lastpacket s" and "FFail \<notin> set (fscript (src s))"
    and "fdata (src s) \<noteq> []" and "wr (tty s) = []" and "dr (tty s) = []"
    and "list_all (\<lambda>e. e = RTimeout) (rx (tty s))" and "retry s < MAX_RETRANS"
  shows "\<exists>s'. xmodem_for s = (Breaks, s') \<and> retry s' = MAX_RETRANS \<and>
           wr (tty s') = [] \<and> dr (tty s') = [] \<and>
           sent (trace (tty s')) =
             sent (trace (tty s)) @
             concat (replicate (nat (MAX_RETRANS - retry s))
               (frame (packetno s) (payload_of (fdata (src s)))))"
proof -
  from xmodem_body_build[OF assms(1-3)]
  obtain sb where b: "xmodem_body s = xmodem_exchange sb"
    and fb: "retry sb = retry s" "packetno sb = packetno s" "lastpacket sb = packetno s"
      "tty sb = rotator (tty s)"
      "load (packet sb) 0 132 = frame (packetno s) (payload_of (fdata (src s)))"
    by blast
  have rxb: "rx (tty sb) = [] \<or> hd (rx (tty sb)) = RTimeout"
    using assms(6) fb(4) by (cases "rx (tty s)") simp_all
  from xmodem_exchange_timeout[of sb, OF _ _ rxb] assms(4,5) fb(4)
  obtain s1 where e: "xmodem_exchange sb = (Continues, s1)"
    and f: "retry s1 = retry sb" "packetno s1 = packetno sb" "lastpacket s1 = lastpacket sb"
      "packet s1 = packet sb" "wr (tty s1) = []" "dr (tty s1) = []"
      "rx (tty s1) = tl (rx (tty sb))"
    and t: "trace (tty s1) =
             trace (tty sb) @ packet_events (packet sb) 0 132 @ [Read RECEIVE_TIMEOUT (- 1)]"
    by auto
  define s2 where "s2 = s1\<lparr>retry := retry s1 + 1\<rparr>"
  have to: "list_all (\<lambda>e. e = RTimeout) (rx (tty s2))"
    using assms(6) f(7) fb(4) by (cases "rx (tty s)") (simp_all add: s2_def)
  have "packetno s2 = lastpacket s2" "wr (tty s2) = []" "dr (tty s2) = []"
    "retry s2 \<le> MAX_RETRANS"
    using f fb assms(7) by (simp_all add: s2_def)
  from xmodem_for_resend_timeouts[OF this(1-3) to this(4)]
  obtain s' where r: "xmodem_for s2 = (Breaks, s')" "retry s' = MAX_RETRANS"
      "wr (tty s') = []" "dr (tty s') = []"
      "sent (trace (tty s')) =
             sent (trace (tty s2)) @
             concat (replicate (nat (MAX_RETRANS - retry s2)) (load (packet s2) 0 132))"
    by blast
  have s2t: "sent (trace (tty s2)) =
      sent (trace (tty s)) @ frame (packetno s) (payload_of (fdata (src s)))"
    by (simp add: s2_def t fb(4) sent_packet_events_load fb(5))
  have n: "nat (MAX_RETRANS - retry s) = Suc (nat (MAX_RETRANS - retry s2))"
    using assms(7) f(1) fb(1) by (simp add: s2_def)
  have "xmodem_for s = (Breaks, s')"
    using xmodem_for_continue[OF assms(7), of s1] b e r(1) by (simp add: s2_def)
  moreover have "sent (trace (tty s')) =
             sent (trace (tty s)) @
             concat (replicate (nat (MAX_RETRANS - retry s))
               (frame (packetno s) (payload_of (fdata (src s)))))"
    unfolding n r(5) s2t using f(4) fb(5) by (simp add: s2_def)
  ultimately show ?thesis
    using r by simp
qed

text \<open>The confirming NAK, and the end of a transfer that ran out of retries.\<close>

lemma wait_for_nak_nak:
  "rx w = RByte 0x15 # rest \<Longrightarrow>
   wait_for_nak w = (Ret 0, w\<lparr>rx := rest, trace := trace w @ [Read RECEIVE_TIMEOUT NAK]\<rparr>)"
  by (simp add: wait_for_nak_def read_byte_def emit_def NAK_def)

lemma cancel_send_quiet:
  "wr w = [] \<Longrightarrow> dr w = [] \<Longrightarrow>
   cancel_send w = w\<lparr>trace := trace w @ [Write [0x18, 0x18, 0x18] 3, Drain 0, Flush]\<rparr>"
  by (simp add: cancel_send_def sys_write_def tcdrain_def tcflush_def emit_def CAN_def)

lemma xmodem_after_exhausted:
  assumes "retry s = MAX_RETRANS" and "wr (tty s) = []" and "dr (tty s) = []"
  shows "xmodem_after (Breaks, s) =
           (Ret (- 1),
            (tty s)\<lparr>trace := trace (tty s) @
               [Err Too_many_retries, Write [0x18, 0x18, 0x18] 3, Drain 0, Flush]\<rparr>,
            src s)"
  using assms by (simp add: xmodem_after_def cancel_send_quiet err_def emit_def)

text \<open>
  C2. The confirming NAK arrives, the file has at least one byte and can be read, no write or
  drain fails, and every acknowledgment read times out. Then the bytes of packet 1 go out
  ten times in all (\<^verbatim>\<open>MAX_RETRANS\<close> attempts, each with the same unmodified bytes), followed
  by one write of three CAN bytes, and \<^verbatim>\<open>xmodem_send\<close> returns \<open>- 1\<close> after the message
  "Too many retries, cancelling send".
\<close>

theorem xmodem_send_all_timeouts:
  assumes "rx w = RByte 0x15 # rest" and "list_all (\<lambda>e. e = RTimeout) rest"
    and "wr w = []" and "dr w = []"
    and "FFail \<notin> set (fscript f)" and "fdata f \<noteq> []"
  shows "\<exists>w' f' evs. xmodem_send packet0 w f = (Ret (- 1), w', f') \<and>
           sent (trace w') =
             sent (trace w) @ concat (replicate 10 (frame 1 (payload_of (fdata f)))) @
             [0x18, 0x18, 0x18] \<and>
           trace w' = evs @ [Err Too_many_retries, Write [0x18, 0x18, 0x18] 3, Drain 0, Flush]"
proof -
  define w1 where
    "w1 = (out Sending_file w)\<lparr>rx := rest,
             trace := trace (out Sending_file w) @ [Read RECEIVE_TIMEOUT NAK]\<rparr>"
  define s0 where "s0 = xmodem_start packet0 w1 f"
  have nak: "wait_for_nak (out Sending_file w) = (Ret 0, w1)"
    using wait_for_nak_nak[of "out Sending_file w" rest] assms(1) by (simp add: w1_def)
  have "packetno s0 \<noteq> lastpacket s0" "FFail \<notin> set (fscript (src s0))"
    "fdata (src s0) \<noteq> []" "wr (tty s0) = []" "dr (tty s0) = []"
    "list_all (\<lambda>e. e = RTimeout) (rx (tty s0))" "retry s0 < MAX_RETRANS"
    using assms by (simp_all add: s0_def xmodem_start_def w1_def MAX_RETRANS_def)
  from xmodem_for_build_timeouts[OF this]
  obtain s' where r: "xmodem_for s0 = (Breaks, s')" "retry s' = MAX_RETRANS"
      "wr (tty s') = []" "dr (tty s') = []"
      "sent (trace (tty s')) =
             sent (trace (tty s0)) @
             concat (replicate (nat (MAX_RETRANS - retry s0))
               (frame (packetno s0) (payload_of (fdata (src s0)))))"
    by blast
  define w' where "w' = (tty s')\<lparr>trace := trace (tty s') @
               [Err Too_many_retries, Write [0x18, 0x18, 0x18] 3, Drain 0, Flush]\<rparr>"
  have "xmodem_send packet0 w f = (Ret (- 1), w', src s')"
    using nak r(1) xmodem_after_exhausted[OF r(2-4)]
    by (simp add: xmodem_send_def s0_def w'_def)
  moreover have "sent (trace w') =
             sent (trace w) @ concat (replicate 10 (frame 1 (payload_of (fdata f)))) @
             [0x18, 0x18, 0x18]"
    using r(5) by (simp add: w'_def s0_def xmodem_start_def w1_def MAX_RETRANS_def)
  moreover have "trace w' =
      trace (tty s') @ [Err Too_many_retries, Write [0x18, 0x18, 0x18] 3, Drain 0, Flush]"
    by (simp add: w'_def)
  ultimately show ?thesis by blast
qed

theorem xmodem_send_all_timeouts_witness:
  "\<exists>w' f' evs.
      xmodem_send (\<lambda>_. 0) (idle_world\<lparr>rx := [RByte 0x15, RTimeout]\<rparr>) two_byte_file =
        (Ret (- 1), w', f') \<and>
      sent (trace w') =
        concat (replicate 10 (frame 1 (payload_of [0x41, 0x42]))) @ [0x18, 0x18, 0x18] \<and>
      trace w' = evs @ [Err Too_many_retries, Write [0x18, 0x18, 0x18] 3, Drain 0, Flush]"
  using xmodem_send_all_timeouts[of "idle_world\<lparr>rx := [RByte 0x15, RTimeout]\<rparr>" "[RTimeout]"
      two_byte_file "\<lambda>_. 0"]
  by (simp add: idle_world_def two_byte_file_def)

text \<open>A fresh packet that is acknowledged: the next iteration starts with \<^verbatim>\<open>retry = 1\<close>.\<close>

lemma xmodem_for_build_ack:
  assumes "packetno s \<noteq> lastpacket s" and "FFail \<notin> set (fscript (src s))"
    and "fdata (src s) \<noteq> []" and "wr (tty s) = []" and "dr (tty s) = []"
    and "rx (tty s) = RByte 0x06 # rest" and "retry s < MAX_RETRANS"
  shows "\<exists>s2. xmodem_for s = xmodem_for s2 \<and> retry s2 = 1 \<and>
           packetno s2 = packetno s + 1 \<and> lastpacket s2 = packetno s \<and>
           fdata (src s2) = drop 128 (fdata (src s)) \<and> FFail \<notin> set (fscript (src s2)) \<and>
           wr (tty s2) = [] \<and> dr (tty s2) = [] \<and> rx (tty s2) = rest \<and>
           sent (trace (tty s2)) =
             sent (trace (tty s)) @ frame (packetno s) (payload_of (fdata (src s)))"
proof -
  from xmodem_body_build[OF assms(1-3)]
  obtain sb where b: "xmodem_body s = xmodem_exchange sb"
    and fb: "retry sb = retry s" "packetno sb = packetno s" "lastpacket sb = packetno s"
      "tty sb = rotator (tty s)" "fdata (src sb) = drop 128 (fdata (src s))"
      "FFail \<notin> set (fscript (src sb))"
      "load (packet sb) 0 132 = frame (packetno s) (payload_of (fdata (src s)))"
    by blast
  from xmodem_exchange_ack[of sb rest] assms(4-6) fb(4)
  obtain s1 where e: "xmodem_exchange sb = (Continues, s1)"
    and f: "retry s1 = 0" "packetno s1 = packetno sb + 1" "lastpacket s1 = lastpacket sb"
      "src s1 = src sb" "wr (tty s1) = []" "dr (tty s1) = []" "rx (tty s1) = rest"
    and t: "trace (tty s1) =
             trace (tty sb) @ packet_events (packet sb) 0 132 @ [Read RECEIVE_TIMEOUT ACK]"
    by auto
  define s2 where "s2 = s1\<lparr>retry := retry s1 + 1\<rparr>"
  have "xmodem_for s = xmodem_for s2"
    using xmodem_for_continue[OF assms(7), of s1] b e by (simp add: s2_def)
  moreover have "sent (trace (tty s2)) =
             sent (trace (tty s)) @ frame (packetno s) (payload_of (fdata (src s)))"
    by (simp add: s2_def t fb(4) sent_packet_events_load fb(7))
  ultimately show ?thesis
    using f fb by (intro exI[of _ s2]) (simp add: s2_def)
qed

text \<open>
  C9. What the code does after a positive acknowledgment. The \<^verbatim>\<open>ACK\<close> case sets
  \<^verbatim>\<open>retry = 0\<close> and increments \<^verbatim>\<open>packetno\<close>, and the \<^verbatim>\<open>++retry\<close> of the \<^verbatim>\<open>for\<close>
  statement then makes it 1. So when packet 1 is acknowledged and every later read times out,
  packet 2 goes out nine times before the cancel, one attempt fewer than the ten that
  packet 1 gets when it is never acknowledged.
\<close>

theorem xmodem_send_ack_then_timeouts:
  assumes "rx w = RByte 0x15 # RByte 0x06 # rest" and "list_all (\<lambda>e. e = RTimeout) rest"
    and "wr w = []" and "dr w = []"
    and "FFail \<notin> set (fscript f)" and "128 < length (fdata f)"
  shows "\<exists>w' f' evs. xmodem_send packet0 w f = (Ret (- 1), w', f') \<and>
           sent (trace w') =
             sent (trace w) @ frame 1 (payload_of (fdata f)) @
             concat (replicate 9 (frame 2 (payload_of (drop 128 (fdata f))))) @
             [0x18, 0x18, 0x18] \<and>
           trace w' = evs @ [Err Too_many_retries, Write [0x18, 0x18, 0x18] 3, Drain 0, Flush]"
proof -
  define w1 where
    "w1 = (out Sending_file w)\<lparr>rx := RByte 0x06 # rest,
             trace := trace (out Sending_file w) @ [Read RECEIVE_TIMEOUT NAK]\<rparr>"
  define s0 where "s0 = xmodem_start packet0 w1 f"
  have nak: "wait_for_nak (out Sending_file w) = (Ret 0, w1)"
    using wait_for_nak_nak[of "out Sending_file w" "RByte 0x06 # rest"] assms(1)
    by (simp add: w1_def)
  have "packetno s0 \<noteq> lastpacket s0" "FFail \<notin> set (fscript (src s0))"
    "fdata (src s0) \<noteq> []" "wr (tty s0) = []" "dr (tty s0) = []"
    "rx (tty s0) = RByte 0x06 # rest" "retry s0 < MAX_RETRANS"
    using assms by (auto simp: s0_def xmodem_start_def w1_def MAX_RETRANS_def)
  from xmodem_for_build_ack[OF this]
  obtain s2 where a: "xmodem_for s0 = xmodem_for s2" "retry s2 = 1"
      "packetno s2 = packetno s0 + 1" "lastpacket s2 = packetno s0"
      "fdata (src s2) = drop 128 (fdata (src s0))" "FFail \<notin> set (fscript (src s2))"
      "wr (tty s2) = []" "dr (tty s2) = []" "rx (tty s2) = rest"
      "sent (trace (tty s2)) =
         sent (trace (tty s0)) @ frame (packetno s0) (payload_of (fdata (src s0)))"
    by blast
  have "packetno s2 \<noteq> lastpacket s2" "fdata (src s2) \<noteq> []"
    "list_all (\<lambda>e. e = RTimeout) (rx (tty s2))" "retry s2 < MAX_RETRANS"
    using a assms(2,6) by (simp_all add: s0_def xmodem_start_def MAX_RETRANS_def)
  from xmodem_for_build_timeouts[OF this(1) a(6) this(2) a(7,8) this(3,4)]
  obtain s' where r: "xmodem_for s2 = (Breaks, s')" "retry s' = MAX_RETRANS"
      "wr (tty s') = []" "dr (tty s') = []"
      "sent (trace (tty s')) =
             sent (trace (tty s2)) @
             concat (replicate (nat (MAX_RETRANS - retry s2))
               (frame (packetno s2) (payload_of (fdata (src s2)))))"
    by blast
  define w' where "w' = (tty s')\<lparr>trace := trace (tty s') @
               [Err Too_many_retries, Write [0x18, 0x18, 0x18] 3, Drain 0, Flush]\<rparr>"
  have "xmodem_send packet0 w f = (Ret (- 1), w', src s')"
    using nak a(1) r(1) xmodem_after_exhausted[OF r(2-4)]
    by (simp add: xmodem_send_def s0_def w'_def)
  moreover have "sent (trace w') =
             sent (trace w) @ frame 1 (payload_of (fdata f)) @
             concat (replicate 9 (frame 2 (payload_of (drop 128 (fdata f))))) @
             [0x18, 0x18, 0x18]"
    using r(5) a by (simp add: w'_def s0_def xmodem_start_def w1_def MAX_RETRANS_def)
  moreover have "trace w' =
      trace (tty s') @ [Err Too_many_retries, Write [0x18, 0x18, 0x18] 3, Drain 0, Flush]"
    by (simp add: w'_def)
  ultimately show ?thesis by blast
qed

theorem xmodem_send_ack_then_timeouts_witness:
  "\<exists>w' f' evs.
      xmodem_send (\<lambda>_. 0) (idle_world\<lparr>rx := [RByte 0x15, RByte 0x06]\<rparr>)
        \<lparr>fdata = replicate 129 0x41, fscript = []\<rparr> = (Ret (- 1), w', f') \<and>
      sent (trace w') =
        frame 1 (payload_of (replicate 129 0x41)) @
        concat (replicate 9 (frame 2 (payload_of (drop 128 (replicate 129 0x41))))) @
        [0x18, 0x18, 0x18] \<and>
      trace w' = evs @ [Err Too_many_retries, Write [0x18, 0x18, 0x18] 3, Drain 0, Flush]"
  using xmodem_send_ack_then_timeouts[of "idle_world\<lparr>rx := [RByte 0x15, RByte 0x06]\<rparr>" "[]"
      "\<lparr>fdata = replicate 129 0x41, fscript = []\<rparr>" "\<lambda>_. 0"]
  by (simp add: idle_world_def)

text \<open>The Finishing phase when the first EOT is acknowledged.\<close>

lemma xmodem_finish_ack:
  assumes "wr w = []" and "dr w = []" and "rx w = RByte 0x06 # rest"
  shows "xmodem_finish w =
           (Ret 0, w\<lparr>rx := rest, trace := trace w @
              [Out Finishing, Write [0x04] 1, Drain 0, Read 1 ACK, Out Done_msg]\<rparr>)"
  using assms
  by (simp add: xmodem_finish_def eot_loop.simps[of _ 0 0] MAX_RETRANS_def write_byte_def
      sys_write_def tcdrain_def read_byte_def out_def emit_def EOT_def ACK_def)

text \<open>A fresh packet whose acknowledgment read fails.\<close>

lemma xmodem_for_build_error:
  assumes "packetno s \<noteq> lastpacket s" and "FFail \<notin> set (fscript (src s))"
    and "fdata (src s) \<noteq> []" and "wr (tty s) = []" and "dr (tty s) = []"
    and "rx (tty s) = RError e # rest" and "e \<noteq> ETIMEDOUT" and "retry s < MAX_RETRANS"
  shows "\<exists>s1 evs. xmodem_for s = (Breaks, s1) \<and> retry s1 = retry s \<and>
           wr (tty s1) = [] \<and> dr (tty s1) = [] \<and> rx (tty s1) = rest \<and>
           trace (tty s1) = evs @ [Read RECEIVE_TIMEOUT (- 1), Err Error_writing_serial] \<and>
           sent (trace (tty s1)) =
             sent (trace (tty s)) @ frame (packetno s) (payload_of (fdata (src s)))"
proof -
  from xmodem_body_build[OF assms(1-3)]
  obtain sb where b: "xmodem_body s = xmodem_exchange sb"
    and fb: "retry sb = retry s" "tty sb = rotator (tty s)"
      "load (packet sb) 0 132 = frame (packetno s) (payload_of (fdata (src s)))"
    by blast
  from xmodem_exchange_error[of sb e rest] assms(4-7) fb(2)
  obtain s1 where e: "xmodem_exchange sb = (Breaks, s1)"
    and f: "retry s1 = retry sb" "wr (tty s1) = []" "dr (tty s1) = []" "rx (tty s1) = rest"
    and t: "trace (tty s1) =
             trace (tty sb) @ packet_events (packet sb) 0 132 @
             [Read RECEIVE_TIMEOUT (- 1), Err Error_writing_serial]"
    by auto
  have "xmodem_for s = (Breaks, s1)"
    using xmodem_for_leave[OF assms(8), of Breaks s1] b e by simp
  moreover have "sent (trace (tty s1)) =
             sent (trace (tty s)) @ frame (packetno s) (payload_of (fdata (src s)))"
    by (simp add: t fb(2) sent_packet_events_load fb(3))
  moreover have "trace (tty s1) =
      (trace (tty sb) @ packet_events (packet sb) 0 132) @
      [Read RECEIVE_TIMEOUT (- 1), Err Error_writing_serial]"
    by (simp add: t)
  ultimately show ?thesis
    using f fb(1)
    by (intro exI[of _ s1] exI[of _ "trace (tty sb) @ packet_events (packet sb) 0 132"]) simp
qed

text \<open>
  C1. What the code does when the acknowledgment read fails with an error that is not a
  timeout. It prints "error writing to serial port" and leaves the sending loop with
  \<^verbatim>\<open>break\<close>; \<^verbatim>\<open>retry\<close> is below \<^verbatim>\<open>MAX_RETRANS\<close>, so the Finishing phase runs: EOT is
  written, and when it is acknowledged \<^verbatim>\<open>xmodem_send\<close> prints "done" and returns 0.
\<close>

theorem xmodem_send_error_then_done:
  assumes "rx w = RByte 0x15 # RError e # RByte 0x06 # rest" and "e \<noteq> ETIMEDOUT"
    and "wr w = []" and "dr w = []"
    and "FFail \<notin> set (fscript f)" and "fdata f \<noteq> []"
  shows "\<exists>w' f' evs. xmodem_send packet0 w f = (Ret 0, w', f') \<and>
           sent (trace w') = sent (trace w) @ frame 1 (payload_of (fdata f)) @ [0x04] \<and>
           trace w' = evs @
             [Read RECEIVE_TIMEOUT (- 1), Err Error_writing_serial, Out Finishing,
              Write [0x04] 1, Drain 0, Read 1 ACK, Out Done_msg]"
proof -
  define w1 where
    "w1 = (out Sending_file w)\<lparr>rx := RError e # RByte 0x06 # rest,
             trace := trace (out Sending_file w) @ [Read RECEIVE_TIMEOUT NAK]\<rparr>"
  define s0 where "s0 = xmodem_start packet0 w1 f"
  have nak: "wait_for_nak (out Sending_file w) = (Ret 0, w1)"
    using wait_for_nak_nak[of "out Sending_file w" "RError e # RByte 0x06 # rest"] assms(1)
    by (simp add: w1_def)
  have "packetno s0 \<noteq> lastpacket s0" "FFail \<notin> set (fscript (src s0))"
    "fdata (src s0) \<noteq> []" "wr (tty s0) = []" "dr (tty s0) = []"
    "rx (tty s0) = RError e # RByte 0x06 # rest" "e \<noteq> ETIMEDOUT" "retry s0 < MAX_RETRANS"
    using assms by (simp_all add: s0_def xmodem_start_def w1_def MAX_RETRANS_def)
  from xmodem_for_build_error[OF this]
  obtain s1 evs where r: "xmodem_for s0 = (Breaks, s1)" "retry s1 = retry s0"
      "wr (tty s1) = []" "dr (tty s1) = []" "rx (tty s1) = RByte 0x06 # rest"
      "trace (tty s1) = evs @ [Read RECEIVE_TIMEOUT (- 1), Err Error_writing_serial]"
      "sent (trace (tty s1)) =
         sent (trace (tty s0)) @ frame (packetno s0) (payload_of (fdata (src s0)))"
    by blast
  define w' where "w' = (tty s1)\<lparr>rx := rest, trace := trace (tty s1) @
              [Out Finishing, Write [0x04] 1, Drain 0, Read 1 ACK, Out Done_msg]\<rparr>"
  have "retry s1 \<noteq> MAX_RETRANS"
    using r(2) by (simp add: s0_def xmodem_start_def MAX_RETRANS_def)
  then have "xmodem_send packet0 w f = (Ret 0, w', src s1)"
    using nak r(1) xmodem_finish_ack[OF r(3-5)]
    by (simp add: xmodem_send_def s0_def xmodem_after_def w'_def)
  moreover have "sent (trace w') = sent (trace w) @ frame 1 (payload_of (fdata f)) @ [0x04]"
    using r(7) by (simp add: w'_def s0_def xmodem_start_def w1_def)
  moreover have "trace w' = evs @
             [Read RECEIVE_TIMEOUT (- 1), Err Error_writing_serial, Out Finishing,
              Write [0x04] 1, Drain 0, Read 1 ACK, Out Done_msg]"
    by (simp add: w'_def r(6))
  ultimately show ?thesis by blast
qed

theorem xmodem_send_error_then_done_witness:
  "\<exists>w' f' evs.
      xmodem_send (\<lambda>_. 0) (idle_world\<lparr>rx := [RByte 0x15, RError 5, RByte 0x06]\<rparr>)
        two_byte_file = (Ret 0, w', f') \<and>
      sent (trace w') = frame 1 (payload_of [0x41, 0x42]) @ [0x04] \<and>
      trace w' = evs @
        [Read RECEIVE_TIMEOUT (- 1), Err Error_writing_serial, Out Finishing,
         Write [0x04] 1, Drain 0, Read 1 ACK, Out Done_msg]"
  using xmodem_send_error_then_done[of "idle_world\<lparr>rx := [RByte 0x15, RError 5, RByte 0x06]\<rparr>"
      5 "[]" two_byte_file "\<lambda>_. 0"]
  by (simp add: idle_world_def two_byte_file_def ETIMEDOUT_def)

subsection \<open>The initial wait for the confirming NAK\<close>


lemma uint_byte_not_minus_1 [simp]: "uint (b :: byte) \<noteq> - 1"
  using uint_ge_0[of b] by linarith





text \<open>
  C10. A CAN during the initial wait that is not followed by a second CAN: whatever the
  read with the one-second timeout brings (another byte, a timeout, an error),
  \<^verbatim>\<open>wait_for_nak\<close> returns 0, that read has taken its byte off the line, and
  \<^verbatim>\<open>xmodem_send\<close> goes on to the sending loop from its initial state.
\<close>

theorem wait_for_nak_single_can:
  assumes "rx w = RByte 0x18 # rest"
    and "rest = [] \<or> (hd rest \<noteq> RByte 0x18 \<and> hd rest \<noteq> REof)"
  shows "\<exists>w' c. wait_for_nak (out Sending_file w) = (Ret 0, w') \<and> rx w' = tl rest \<and>
           c \<noteq> CAN \<and>
           trace w' =
             trace w @ [Out Sending_file, Read RECEIVE_TIMEOUT CAN, Read ONE_SECOND_US c] \<and>
           xmodem_send packet0 w f = xmodem_after (xmodem_for (xmodem_start packet0 w' f))"
proof -
  define w1 where "w1 = emit (Read RECEIVE_TIMEOUT CAN) ((out Sending_file w)\<lparr>rx := rest\<rparr>)"
  have rb: "read_byte (out Sending_file w) RECEIVE_TIMEOUT = (Ret CAN, w1)"
    using assms(1) by (simp add: read_byte_def w1_def CAN_def)
  have "\<exists>w' c. read_byte w1 ONE_SECOND_US = (Ret c, w') \<and> c \<noteq> CAN \<and> rx w' = tl rest \<and>
          trace w' = trace w1 @ [Read ONE_SECOND_US c]"
  proof (cases rest)
    case Nil
    then show ?thesis
      by (simp add: read_byte_def w1_def emit_def CAN_def)
  next
    case (Cons e es)
    with assms(2) have e: "e \<noteq> RByte 0x18" "e \<noteq> REof" by simp_all
    show ?thesis
    proof (cases e)
      case (RByte b)
      with e have "b \<noteq> 0x18" by simp
      then have "uint b \<noteq> 0x18"
        by (simp add: word_uint_eq_iff)
      with RByte Cons show ?thesis
        by (simp add: read_byte_def w1_def emit_def CAN_def)
    qed (use e Cons in \<open>simp_all add: read_byte_def w1_def emit_def CAN_def\<close>)
  qed
  then obtain w' c where r2: "read_byte w1 ONE_SECOND_US = (Ret c, w')" and c: "c \<noteq> CAN"
    and f: "rx w' = tl rest" "trace w' = trace w1 @ [Read ONE_SECOND_US c]"
    by blast
  have wn: "wait_for_nak (out Sending_file w) = (Ret 0, w')"
    using rb r2 c by (simp add: wait_for_nak_def CAN_def NAK_def)
  then have "xmodem_send packet0 w f = xmodem_after (xmodem_for (xmodem_start packet0 w' f))"
    by (simp add: xmodem_send_def)
  moreover have "trace w' =
      trace w @ [Out Sending_file, Read RECEIVE_TIMEOUT CAN, Read ONE_SECOND_US c]"
    by (simp add: f w1_def emit_def)
  ultimately show ?thesis
    using wn c f(1) by blast
qed

theorem wait_for_nak_single_can_witness:
  "\<exists>w' c. wait_for_nak (out Sending_file (idle_world\<lparr>rx := [RByte 0x18, RByte 0x43]\<rparr>)) =
       (Ret 0, w') \<and> rx w' = [] \<and> c \<noteq> CAN \<and>
     trace w' = [Out Sending_file, Read RECEIVE_TIMEOUT CAN, Read ONE_SECOND_US c] \<and>
     xmodem_send (\<lambda>_. 0) (idle_world\<lparr>rx := [RByte 0x18, RByte 0x43]\<rparr>) two_byte_file =
       xmodem_after (xmodem_for (xmodem_start (\<lambda>_. 0) w' two_byte_file))"
  using wait_for_nak_single_can[of "idle_world\<lparr>rx := [RByte 0x18, RByte 0x43]\<rparr>"
      "[RByte 0x43]" "\<lambda>_. 0" two_byte_file]
  by (simp add: idle_world_def)

subsection \<open>Cancellation by the remote, and the timeouts of the one-byte reads\<close>

lemma sys_write_trace:
  "\<exists>r. sys_write w bs = (r, snd (sys_write w bs)) \<and>
        trace (snd (sys_write w bs)) = trace w @ [Write bs r] \<and>
        rx (snd (sys_write w bs)) = rx w"
  by (auto simp: sys_write_def emit_def split: list.splits wr_ev.splits)

lemma tcdrain_trace:
  "\<exists>d. tcdrain w = (d, snd (tcdrain w)) \<and>
        trace (snd (tcdrain w)) = trace w @ [Drain d] \<and>
        rx (snd (tcdrain w)) = rx w"
  by (auto simp: tcdrain_def emit_def split: list.splits dr_ev.splits)

lemma read_byte_no_eof:
  assumes "rx w = [] \<or> hd (rx w) \<noteq> REof"
  shows "\<exists>c. read_byte w t = (Ret c, snd (read_byte w t)) \<and>
           trace (snd (read_byte w t)) = trace w @ [Read t c] \<and>
           rx (snd (read_byte w t)) = tl (rx w)"
  using assms
  by (cases "rx w"; cases "hd (rx w)") (auto simp: read_byte_def emit_def)

text \<open>The Finishing loop issues between one and ten reads, each with timeout 1.\<close>

lemma eot_loop_read_timeouts:
  "REof \<notin> set (rx w) \<Longrightarrow> rt < MAX_RETRANS \<Longrightarrow>
   \<exists>k. 0 < k \<and> k \<le> nat (MAX_RETRANS - rt) \<and>
     read_timeouts (trace (snd (eot_loop w rt c))) = read_timeouts (trace w) @ replicate k 1"
proof (induction w rt c rule: eot_loop.induct)
  case (1 w rt c)
  from sys_write_trace[of w "[0x04]"] obtain r w1 where
    wb: "write_byte w EOT = (r, w1)" and t1: "trace w1 = trace w @ [Write [0x04] r]"
    and r1: "rx w1 = rx w"
    by (auto simp: write_byte_def EOT_def)
  from tcdrain_trace[of w1] obtain d w2 where
    td: "tcdrain w1 = (d, w2)" and t2: "trace w2 = trace w1 @ [Drain d]" and r2: "rx w2 = rx w1"
    by auto
  have ne: "rx w2 = [] \<or> hd (rx w2) \<noteq> REof"
    using "1.prems"(1) r1 r2 by (cases "rx w") auto
  from read_byte_no_eof[OF ne, of 1] obtain c' w3 where
    rb: "read_byte w2 1 = (Ret c', w3)" and t3: "trace w3 = trace w2 @ [Read 1 c']"
    and r3: "rx w3 = tl (rx w2)"
    by auto
  have rt3: "read_timeouts (trace w3) = read_timeouts (trace w) @ [1]"
    by (simp add: t3 t2 t1)
  show ?case
  proof (cases "c' = ACK \<or> \<not> rt + 1 < MAX_RETRANS")
    case True
    then have "eot_loop w rt c = (Ret c', w3)"
      using "1.prems"(2) wb td rb
      by (auto simp: eot_loop.simps[of w rt c] eot_loop.simps[of w3 "rt + 1" c'])
    with rt3 "1.prems"(2) show ?thesis
      by (intro exI[of _ 1]) simp
  next
    case False
    then have c': "c' \<noteq> ACK" and lt: "rt + 1 < MAX_RETRANS" by simp_all
    have e: "eot_loop w rt c = eot_loop w3 (rt + 1) c'"
      using "1.prems"(2) wb td rb c' by (simp add: eot_loop.simps[of w rt c])
    have n3: "REof \<notin> set (rx w3)"
      using "1.prems"(1) r1 r2 r3 by (cases "rx w") auto
    from "1.IH"[OF "1.prems"(2) wb[symmetric] td[symmetric] rb[symmetric] refl c' n3 lt]
    obtain k where k: "0 < k" "k \<le> nat (MAX_RETRANS - (rt + 1))"
      "read_timeouts (trace (snd (eot_loop w3 (rt + 1) c'))) =
         read_timeouts (trace w3) @ replicate k 1"
      by blast
    have "read_timeouts (trace (snd (eot_loop w rt c))) =
            read_timeouts (trace w) @ replicate (Suc k) 1"
      by (simp add: e k(3) rt3)
    moreover have "Suc k \<le> nat (MAX_RETRANS - rt)"
      using k(2) lt by linarith
    ultimately show ?thesis
      by (intro exI[of _ "Suc k"]) simp
  qed
qed

text \<open>
  C4. The timeouts the code passes to \<^verbatim>\<open>read_byte\<close>, whose unit is the microsecond. After
  a CAN in the sending loop the next byte is read with timeout 1, and every read of the
  Finishing phase has timeout 1: one microsecond, where a second is \<^verbatim>\<open>ONE_SECOND_US\<close>.
\<close>

theorem one_microsecond_reads:
  assumes "send_packet (tty s) (packet s) (buflen + 4) = (Ret CAN, w1)"
    and "REof \<notin> set (rx w1)" and "REof \<notin> set (rx w)"
  shows "read_timeouts (trace (tty (snd (xmodem_exchange s)))) = read_timeouts (trace w1) @ [1] \<and>
         (\<exists>k. 0 < k \<and> k \<le> 10 \<and>
            read_timeouts (trace (snd (xmodem_finish w))) =
              read_timeouts (trace w) @ replicate k 1) \<and>
         1 < ONE_SECOND_US"
proof -
  have ne: "rx (out Cancelled_by_remote w1) = [] \<or> hd (rx (out Cancelled_by_remote w1)) \<noteq> REof"
    using assms(2) by (cases "rx w1") auto
  from read_byte_no_eof[OF ne, of 1] obtain c2 w2 where
    rb: "read_byte (out Cancelled_by_remote w1) 1 = (Ret c2, w2)"
    and t2: "trace w2 = trace (out Cancelled_by_remote w1) @ [Read 1 c2]"
    by auto
  from sys_write_trace[of w2 "[0x06]"] obtain r w3 where
    wb: "write_byte w2 ACK = (r, w3)" and t3: "trace w3 = trace w2 @ [Write [0x06] r]"
    by (auto simp: write_byte_def ACK_def)
  from tcdrain_trace[of w3] obtain d w4 where
    td: "tcdrain w3 = (d, w4)" and t4: "trace w4 = trace w3 @ [Drain d]"
    by auto
  have a: "read_timeouts (trace (tty (snd (xmodem_exchange s)))) =
             read_timeouts (trace w1) @ [1]"
    using assms(1) rb wb td
    by (simp add: xmodem_exchange_def CAN_def ACK_def t2 t3 t4)
  from eot_loop_read_timeouts[of "out Finishing w" 0 0] assms(3)
  obtain k where k: "0 < k" "k \<le> 10"
    "read_timeouts (trace (snd (eot_loop (out Finishing w) 0 0))) =
       read_timeouts (trace w) @ replicate k 1"
    by (auto simp: MAX_RETRANS_def)
  have "read_timeouts (trace (snd (xmodem_finish w))) =
          read_timeouts (trace w) @ replicate k 1"
    using k(3)
    by (cases "eot_loop (out Finishing w) 0 0")
       (auto simp: xmodem_finish_def split: ret.splits)
  with a k(1,2) show ?thesis
    by (auto simp: ONE_SECOND_US_def)
qed

theorem one_microsecond_reads_witness:
  "read_timeouts (trace (tty (snd (xmodem_exchange
      (double_can_state\<lparr>tty := idle_world\<lparr>rx := [RByte 0x18]\<rparr>\<rparr>))))) =
     [RECEIVE_TIMEOUT, 1] \<and>
   (\<exists>k. 0 < k \<and> k \<le> 10 \<and>
      read_timeouts (trace (snd (xmodem_finish idle_world))) = replicate k 1) \<and>
   1 < ONE_SECOND_US"
proof -
  define s where "s = double_can_state\<lparr>tty := idle_world\<lparr>rx := [RByte 0x18]\<rparr>\<rparr>"
  define w1 where "w1 = snd (send_packet (tty s) (packet s) (buflen + 4))"
  have sp: "send_packet (tty s) (packet s) (buflen + 4) =
      read_byte ((tty s)\<lparr>trace := trace (tty s) @ packet_events (packet s) 0 132\<rparr>)
        RECEIVE_TIMEOUT"
    by (rule send_packet_quiet) (simp_all add: s_def double_can_state_def idle_world_def)
  have "fst (send_packet (tty s) (packet s) (buflen + 4)) = Ret CAN"
    unfolding sp by (simp add: read_byte_def s_def double_can_state_def idle_world_def CAN_def)
  then have h1: "send_packet (tty s) (packet s) (buflen + 4) = (Ret CAN, w1)"
    by (simp add: w1_def prod_eq_iff)
  have h2: "REof \<notin> set (rx w1)"
    unfolding w1_def sp
    by (simp add: read_byte_def s_def double_can_state_def idle_world_def emit_def)
  have h3: "REof \<notin> set (rx idle_world)"
    by (simp add: idle_world_def)
  have "read_timeouts (trace w1) = [RECEIVE_TIMEOUT]"
    unfolding w1_def sp
    by (simp add: read_byte_def s_def double_can_state_def idle_world_def emit_def)
  moreover have "trace idle_world = []"
    by (simp add: idle_world_def)
  ultimately show ?thesis
    using one_microsecond_reads[OF h1 h2 h3] by (simp add: s_def)
qed

subsection \<open>The boot-pattern handshake\<close>

lemma printed_append [simp]: "printed (xs @ ys) = printed xs @ printed ys"
  by (induction xs rule: printed.induct) simp_all

lemma sent_reads [simp]: "sent (map (\<lambda>b. Read t (f b)) es) = []"
  by (induction es) simp_all

lemma printed_reads [simp]: "printed (map (\<lambda>b. Read t (f b)) es) = []"
  by (induction es) simp_all















subsection \<open>A transfer in which every packet is acknowledged\<close>

lemma nblocks_0 [simp]: "nblocks 0 = 0"
  by (simp add: nblocks_def)

lemma nblocks_step: "0 < n \<Longrightarrow> nblocks n = Suc (nblocks (n - 128))"
proof (cases "n < 128")
  case True
  moreover assume "0 < n"
  ultimately show ?thesis
    by (simp add: nblocks_def)
next
  case False
  then obtain k where "n = k + 128"
    by (metis le_add_diff_inverse2 not_less)
  then show ?thesis
    by (simp add: nblocks_def)
qed

lemma frames_Nil [simp]: "frames n [] = []"
  by (simp add: frames.simps[of n "[]"])

lemma frames_step:
  "bs \<noteq> [] \<Longrightarrow> frames n bs = frame n (payload_of bs) @ frames (n + 1) (drop 128 bs)"
  by (simp add: frames.simps[of n bs])

lemma xmodem_for_eof:
  assumes "packetno s \<noteq> lastpacket s" and "FFail \<notin> set (fscript (src s))"
    and "fdata (src s) = []" and "retry s < MAX_RETRANS"
  shows "\<exists>s1. xmodem_for s = (Breaks, s1) \<and> retry s1 = retry s \<and>
           tty s1 = rotator (tty s) \<and> fdata (src s1) = []"
proof -
  from xmodem_prepare_eof[of "s\<lparr>tty := rotator (tty s)\<rparr>"] assms(1-3)
  obtain s1 where p: "xmodem_prepare (s\<lparr>tty := rotator (tty s)\<rparr>) = (Breaks, s1)"
    and f: "retry s1 = retry s" "tty s1 = rotator (tty s)" "fdata (src s1) = []"
    by auto
  from p have "xmodem_body s = (Breaks, s1)"
    by (simp add: xmodem_body_def)
  then have "xmodem_for s = (Breaks, s1)"
    using xmodem_for_leave[OF assms(4)] by simp
  with f show ?thesis by blast
qed

lemma xmodem_for_all_acks:
  assumes "packetno s \<noteq> lastpacket s" and "FFail \<notin> set (fscript (src s))"
    and "wr (tty s) = []" and "dr (tty s) = []" and "retry s < MAX_RETRANS"
    and "rx (tty s) = replicate (nblocks (length (fdata (src s)))) (RByte 0x06) @ rest"
  shows "\<exists>s'. xmodem_for s = (Breaks, s') \<and> retry s' < MAX_RETRANS \<and>
           wr (tty s') = [] \<and> dr (tty s') = [] \<and> rx (tty s') = rest \<and>
           fdata (src s') = [] \<and>
           sent (trace (tty s')) = sent (trace (tty s)) @ frames (packetno s) (fdata (src s))"
  using assms
proof (induction "length (fdata (src s))" arbitrary: s rule: less_induct)
  case less
  show ?case
  proof (cases "fdata (src s) = []")
    case True
    from xmodem_for_eof[OF less.prems(1,2) True less.prems(5)]
    obtain s1 where "xmodem_for s = (Breaks, s1)" "retry s1 = retry s"
      "tty s1 = rotator (tty s)" "fdata (src s1) = []"
      by blast
    with True less.prems(3-6) show ?thesis
      by (intro exI[of _ s1]) simp
  next
    case False
    then have n: "nblocks (length (fdata (src s))) =
                  Suc (nblocks (length (fdata (src s)) - 128))"
      by (simp add: nblocks_step)
    have rx: "rx (tty s) =
        RByte 0x06 # replicate (nblocks (length (fdata (src s)) - 128)) (RByte 0x06) @ rest"
      using less.prems(6) unfolding n by simp
    from xmodem_for_build_ack[OF less.prems(1,2) False less.prems(3,4) rx less.prems(5)]
    obtain s2 where a: "xmodem_for s = xmodem_for s2" "retry s2 = 1"
      "packetno s2 = packetno s + 1" "lastpacket s2 = packetno s"
      "fdata (src s2) = drop 128 (fdata (src s))" "FFail \<notin> set (fscript (src s2))"
      "wr (tty s2) = []" "dr (tty s2) = []"
      "rx (tty s2) = replicate (nblocks (length (fdata (src s)) - 128)) (RByte 0x06) @ rest"
      "sent (trace (tty s2)) =
         sent (trace (tty s)) @ frame (packetno s) (payload_of (fdata (src s)))"
      by blast
    have lt: "length (fdata (src s2)) < length (fdata (src s))"
      using False a(5) by simp
    have "packetno s2 \<noteq> lastpacket s2" "retry s2 < MAX_RETRANS"
      "rx (tty s2) = replicate (nblocks (length (fdata (src s2)))) (RByte 0x06) @ rest"
      using a by (simp_all add: MAX_RETRANS_def)
    from less.hyps[OF lt this(1) a(6,7,8) this(2,3)]
    obtain s' where r: "xmodem_for s2 = (Breaks, s')" "retry s' < MAX_RETRANS"
      "wr (tty s') = []" "dr (tty s') = []" "rx (tty s') = rest" "fdata (src s') = []"
      "sent (trace (tty s')) = sent (trace (tty s2)) @ frames (packetno s2) (fdata (src s2))"
      by blast
    have "sent (trace (tty s')) = sent (trace (tty s)) @ frames (packetno s) (fdata (src s))"
      unfolding frames_step[OF False] by (simp add: r(7) a(10) a(3) a(5))
    with a(1) r show ?thesis
      by (intro exI[of _ s']) simp
  qed
qed

text \<open>What a receiver that cuts the stream into frames gets back.\<close>

lemma length_payload_of [simp]: "length (payload_of bs) = 128"
  by (simp add: payload_of_def)

lemma length_frame: "length pl = 128 \<Longrightarrow> length (frame n pl) = 132"
  by (simp add: frame_def)

lemma unframe_frame:
  assumes "length pl = 128"
  shows "unframe (frame n pl @ bs) = pl # unframe bs"
proof -
  have "take 128 (drop 3 (frame n pl @ bs)) = pl"
    using assms by (simp add: frame_def)
  moreover have "drop 132 (frame n pl @ bs) = bs"
    using assms by (simp add: frame_def)
  moreover have "\<not> length (frame n pl @ bs) < 132"
    using assms by (simp add: frame_def)
  ultimately show ?thesis
    by (simp add: unframe.simps[of "frame n pl @ bs"])
qed

lemma unframe_short: "length bs < 132 \<Longrightarrow> unframe bs = []"
  by (simp add: unframe.simps[of bs])

lemma concat_unframe_frames:
  "concat (unframe (frames n bs @ [e])) =
     bs @ replicate ((128 - length bs mod 128) mod 128) 0"
proof (induction n bs rule: frames.induct)
  case (1 n bs)
  show ?case
  proof (cases "bs = []")
    case True
    then show ?thesis
      by (simp add: unframe_short)
  next
    case False
    have u: "unframe (frames n bs @ [e]) =
               payload_of bs # unframe (frames (n + 1) (drop 128 bs) @ [e])"
      using False by (simp add: frames_step unframe_frame)
    show ?thesis
    proof (cases "length bs < 128")
      case True
      then have "drop 128 bs = []" by simp
      with True False show ?thesis
        by (simp add: u unframe_short payload_of_def)
    next
      case ge: False
      then have m: "(length bs - 128) mod 128 = length bs mod 128"
        by (simp add: le_mod_geq)
      have "concat (unframe (frames n bs @ [e])) =
              take 128 bs @ drop 128 bs @ replicate ((128 - length bs mod 128) mod 128) 0"
        using ge "1.IH"[OF False] by (simp add: u payload_of_def m)
      then show ?thesis by simp
    qed
  qed
qed

lemma take_concat_unframe_frames:
  "take (length bs) (concat (unframe (frames n bs @ [e]))) = bs"
  by (simp add: concat_unframe_frames)

lemma last_unframe_frames:
  assumes "length bs mod 128 \<noteq> 0"
  shows "last (unframe (frames n bs @ [e])) =
           drop (128 * (length bs div 128)) bs @ replicate (128 - length bs mod 128) 0"
  using assms
proof (induction n bs rule: frames.induct)
  case (1 n bs)
  from "1.prems" have ne: "bs \<noteq> []" by auto
  have u: "unframe (frames n bs @ [e]) =
             payload_of bs # unframe (frames (n + 1) (drop 128 bs) @ [e])"
    using ne by (simp add: frames_step unframe_frame)
  show ?case
  proof (cases "length bs < 128")
    case True
    then have "drop 128 bs = []" by simp
    with True show ?thesis
      by (simp add: u unframe_short payload_of_def)
  next
    case ge: False
    then have m: "(length bs - 128) mod 128 = length bs mod 128"
      by (simp add: le_mod_geq)
    with "1.prems" have m0: "length (drop 128 bs) mod 128 \<noteq> 0"
      by simp
    then have ne2: "drop 128 bs \<noteq> []" by auto
    have u2: "unframe (frames (n + 1) (drop 128 bs) @ [e]) \<noteq> []"
      using ne2 by (simp add: frames_step unframe_frame)
    have d: "length bs div 128 = Suc ((length bs - 128) div 128)"
      using ge by (simp add: le_div_geq)
    have "last (unframe (frames n bs @ [e])) =
            last (unframe (frames (n + 1) (drop 128 bs) @ [e]))"
      using u2 by (simp add: u)
    also have "\<dots> = drop (128 * (length (drop 128 bs) div 128)) (drop 128 bs) @
                      replicate (128 - length (drop 128 bs) mod 128) 0"
      by (rule "1.IH"[OF ne m0])
    also have "\<dots> = drop (128 * (length bs div 128)) bs @ replicate (128 - length bs mod 128) 0"
      by (simp add: m d add.commute)
    finally show ?thesis .
  qed
qed

text \<open>
  C8. The file can be read, no write or drain fails, and the line answers the confirming NAK,
  an ACK for every packet and an ACK for the EOT. Then \<^verbatim>\<open>xmodem_send\<close> returns 0 and what
  it has put on the line is the file in frames followed by EOT. When the length of the file
  is not a multiple of 128, the payload of the last frame is the rest of the file followed by
  zeros up to 128 bytes, and the payloads of all frames, concatenated and cut to the length
  of the file, are the file.
\<close>

theorem xmodem_send_round_trip:
  assumes "length (fdata f) mod 128 \<noteq> 0" and "FFail \<notin> set (fscript f)"
    and "wr w = []" and "dr w = []"
    and "rx w = RByte 0x15 # replicate (nblocks (length (fdata f))) (RByte 0x06) @
                RByte 0x06 # rest"
  shows "\<exists>w' f' tx. xmodem_send packet0 w f = (Ret 0, w', f') \<and>
           sent (trace w') = sent (trace w) @ tx \<and> tx = frames 1 (fdata f) @ [0x04] \<and>
           last (unframe tx) =
             drop (128 * (length (fdata f) div 128)) (fdata f) @
             replicate (128 - length (fdata f) mod 128) 0 \<and>
           take (length (fdata f)) (concat (unframe tx)) = fdata f"
proof -
  define acks where
    "acks = replicate (nblocks (length (fdata f))) (RByte 0x06) @ RByte 0x06 # rest"
  define w1 where
    "w1 = (out Sending_file w)\<lparr>rx := acks,
             trace := trace (out Sending_file w) @ [Read RECEIVE_TIMEOUT NAK]\<rparr>"
  define s0 where "s0 = xmodem_start packet0 w1 f"
  have nak: "wait_for_nak (out Sending_file w) = (Ret 0, w1)"
    using wait_for_nak_nak[of "out Sending_file w" acks] assms(5)
    by (simp add: w1_def acks_def)
  have "packetno s0 \<noteq> lastpacket s0" "FFail \<notin> set (fscript (src s0))"
    "wr (tty s0) = []" "dr (tty s0) = []" "retry s0 < MAX_RETRANS"
    "rx (tty s0) =
       replicate (nblocks (length (fdata (src s0)))) (RByte 0x06) @ RByte 0x06 # rest"
    using assms(2-4)
    by (simp_all add: s0_def xmodem_start_def w1_def acks_def MAX_RETRANS_def)
  from xmodem_for_all_acks[OF this]
  obtain s' where r: "xmodem_for s0 = (Breaks, s')" "retry s' < MAX_RETRANS"
      "wr (tty s') = []" "dr (tty s') = []" "rx (tty s') = RByte 0x06 # rest"
      "sent (trace (tty s')) = sent (trace (tty s0)) @ frames (packetno s0) (fdata (src s0))"
    by blast
  define w' where "w' = (tty s')\<lparr>rx := rest, trace := trace (tty s') @
              [Out Finishing, Write [0x04] 1, Drain 0, Read 1 ACK, Out Done_msg]\<rparr>"
  have "retry s' \<noteq> MAX_RETRANS"
    using r(2) by simp
  then have "xmodem_send packet0 w f = (Ret 0, w', src s')"
    using nak r(1) xmodem_finish_ack[OF r(3-5)]
    by (simp add: xmodem_send_def s0_def xmodem_after_def w'_def)
  moreover have "sent (trace w') = sent (trace w) @ frames 1 (fdata f) @ [0x04]"
    using r(6) by (simp add: w'_def s0_def xmodem_start_def w1_def)
  moreover have "last (unframe (frames 1 (fdata f) @ [0x04])) =
             drop (128 * (length (fdata f) div 128)) (fdata f) @
             replicate (128 - length (fdata f) mod 128) 0"
    by (rule last_unframe_frames[OF assms(1)])
  moreover have "take (length (fdata f)) (concat (unframe (frames 1 (fdata f) @ [0x04]))) =
                 fdata f"
    by (rule take_concat_unframe_frames)
  ultimately show ?thesis by blast
qed

theorem xmodem_send_round_trip_witness:
  "\<exists>w' f' tx.
     xmodem_send (\<lambda>_. 0) (idle_world\<lparr>rx := [RByte 0x15, RByte 0x06, RByte 0x06]\<rparr>)
       two_byte_file = (Ret 0, w', f') \<and>
     sent (trace w') = tx \<and> tx = frames 1 [0x41, 0x42] @ [0x04] \<and>
     last (unframe tx) = [0x41, 0x42] @ replicate 126 0 \<and>
     take 2 (concat (unframe tx)) = [0x41, 0x42]"
  using xmodem_send_round_trip[of two_byte_file
      "idle_world\<lparr>rx := [RByte 0x15, RByte 0x06, RByte 0x06]\<rparr>" "[]" "\<lambda>_. 0"]
  by (simp add: idle_world_def two_byte_file_def nblocks_def numeral_2_eq_2)

subsection \<open>Cancellation by the remote in the middle of a transfer\<close>






end
